theory Spec2Isabelle
  imports Main "HOL-Library.Word"
begin

unbundle bit_operations_syntax

section \<open>Bytes and JavaScript primitives\<close>

text \<open>
  A \<^verbatim>\<open>Uint8Array\<close> is a list of 8-bit words, a \<^verbatim>\<open>BigInt\<close> an unbounded integer.
  Indices, lengths and the instruction pointer are natural numbers.
\<close>

type_synonym byte = "8 word"
type_synonym Uint8Array = "byte list"

text \<open>The exceptions the modelled code can throw.\<close>

datatype exn = RangeError | TypeError

text \<open>\<^verbatim>\<open>array.slice(begin, end)\<close> and \<^verbatim>\<open>array.subarray(begin, end)\<close> at indices that are
  not negative: both clamp to the length of the array.\<close>

definition slice :: "'a list \<Rightarrow> nat \<Rightarrow> nat \<Rightarrow> 'a list" where
  "slice array begin end = take (end - begin) (drop begin array)"

text \<open>\<^verbatim>\<open>array.subarray(begin)\<close>: a negative \<open>begin\<close> counts from the end of the array.\<close>

definition subarrayFrom :: "'a list \<Rightarrow> int \<Rightarrow> 'a list" where
  "subarrayFrom array begin =
     (if begin < 0 then drop (nat (max (int (length array) + begin) 0)) array
      else drop (nat begin) array)"

text \<open>\<^verbatim>\<open>array.pop()\<close>: the last element, or \<^verbatim>\<open>undefined\<close> on an empty array, and the
  array without it.\<close>

definition pop :: "'a list \<Rightarrow> 'a option \<times> 'a list" where
  "pop array = (if array = [] then (None, []) else (Some (last array), butlast array))"

text \<open>
  \<^verbatim>\<open>Number(value)\<close> of a BigInt is the double nearest to it, ties to even; all the values
  below \<open>2 ^ 53\<close> are exact. \<open>None\<close> stands for an infinity. Storing a number into a
  \<^verbatim>\<open>Uint8Array\<close> keeps it modulo 256, and stores 0 for an infinity.
\<close>

function bitLength :: "int \<Rightarrow> nat" where
  "bitLength a = (if a > 0 then Suc (bitLength (a div 2)) else 0)"
  by pat_completeness auto
termination
  by (relation "measure nat") auto

declare bitLength.simps [simp del]

definition roundTiesToEven :: "int \<Rightarrow> int" where
  "roundTiesToEven a =
     (if a < 2 ^ 53 then a
      else
        let sh = bitLength a - 53;
            q = drop_bit sh a;
            r = take_bit sh a;
            half = 2 ^ (sh - 1)
        in push_bit sh (if r > half \<or> (r = half \<and> odd q) then q + 1 else q))"

definition bigIntToNumber :: "int \<Rightarrow> int option" where
  "bigIntToNumber v =
     (let m = roundTiesToEven \<bar>v\<bar>
      in if m \<ge> 2 ^ 1024 then None else Some (if v < 0 then - m else m))"

definition toUint8 :: "int option \<Rightarrow> byte" where
  "toUint8 d = (case d of None \<Rightarrow> 0 | Some k \<Rightarrow> word_of_int k)"

section \<open>Byte utilities (utils.ts)\<close>

text \<open>\<^verbatim>\<open>bigIntToBinUintLE\<close>: the loop writes \<^verbatim>\<open>bin[offset] = Number(value)\<close> and shifts
  \<open>value\<close> right by 8, for \<open>offset\<close> from 0 to \<open>bytes - 1\<close>.\<close>

primrec bigIntToBinUintLE :: "int \<Rightarrow> nat \<Rightarrow> Uint8Array" where
  "bigIntToBinUintLE v 0 = []"
| "bigIntToBinUintLE v (Suc bytes) =
     toUint8 (bigIntToNumber v) # bigIntToBinUintLE (drop_bit 8 v) bytes"

text \<open>
  \<^verbatim>\<open>binToBigIntUintLE\<close>: \<^verbatim>\<open>value += BigInt(bin[offset] * base ** (bitsInAByte * offset))\<close>.
  An index outside \<open>bin\<close> reads \<^verbatim>\<open>undefined\<close>, the product is \<^verbatim>\<open>NaN\<close> and \<^verbatim>\<open>BigInt\<close>
  throws a RangeError; so it does when the power overflows a double.
\<close>

function binToBigIntUintLE_loop :: "Uint8Array \<Rightarrow> nat \<Rightarrow> nat \<Rightarrow> int \<Rightarrow> exn + int" where
  "binToBigIntUintLE_loop bin bytes offset v =
     (if offset < bytes
      then if offset < length bin \<and> 8 * offset < 1024
           then binToBigIntUintLE_loop bin bytes (offset + 1)
                  (v + uint (bin ! offset) * 2 ^ (8 * offset))
           else Inl RangeError
      else Inr v)"
  by pat_completeness auto
termination
  by (relation "measure (\<lambda>(bin, bytes, offset, v). bytes - offset)") auto

declare binToBigIntUintLE_loop.simps [simp del]

definition binToBigIntUintLE :: "Uint8Array \<Rightarrow> nat \<Rightarrow> exn + int" where
  "binToBigIntUintLE bin bytes = binToBigIntUintLE_loop bin bytes 0 0"

text \<open>\<^verbatim>\<open>varIntPrefixToSize\<close>; the first byte is \<^verbatim>\<open>undefined\<close> past the end of the array.\<close>

definition varIntPrefixToSize :: "byte option \<Rightarrow> nat" where
  "varIntPrefixToSize firstByte =
     (if firstByte = Some 0xfd then 2
      else if firstByte = Some 0xfe then 4
      else if firstByte = Some 0xff then 8
      else 1)"

record VarIntResult =
  nextOffset :: nat
  varIntValue :: int

definition readBitcoinVarInt :: "Uint8Array \<Rightarrow> nat \<Rightarrow> exn + VarIntResult" where
  "readBitcoinVarInt bin offset =
     (let bytes = varIntPrefixToSize (if offset < length bin then Some (bin ! offset) else None)
      in case binToBigIntUintLE (slice bin offset (offset + bytes)) bytes of
           Inl e \<Rightarrow> Inl e
         | Inr v \<Rightarrow> Inr \<lparr>nextOffset = offset + bytes, varIntValue = v\<rparr>)"

definition bigIntToBitcoinVarInt :: "int \<Rightarrow> Uint8Array" where
  "bigIntToBitcoinVarInt v =
     (if v \<le> 0xfc then bigIntToBinUintLE v 1
      else if v \<le> 0xffff then 0xfd # bigIntToBinUintLE v 2
      else if v \<le> 0xffffffff then 0xfe # bigIntToBinUintLE v 4
      else 0xff # bigIntToBinUintLE v 8)"

section \<open>Script Numbers (common.ts)\<close>

datatype ScriptNumberError = outOfRange | requiresMinimal

text \<open>The loop of \<^verbatim>\<open>parseBytesAsScriptNumber\<close>:
  \<^verbatim>\<open>result |= BigInt(bytes[byte]) << BigInt(byte * bitsPerByte)\<close>.\<close>

function parseLoop :: "Uint8Array \<Rightarrow> nat \<Rightarrow> int \<Rightarrow> int" where
  "parseLoop bytes byte result =
     (if byte < length bytes
      then parseLoop bytes (byte + 1) (result OR push_bit (byte * 8) (uint (bytes ! byte)))
      else result)"
  by pat_completeness auto
termination
  by (relation "measure (\<lambda>(bytes, byte, result). length bytes - byte)") auto

declare parseLoop.simps [simp del]

text \<open>
  \<^verbatim>\<open>~(signFlippingByte << (bitsPerByte * (bytes.length - 1)))\<close> is computed on 32-bit
  integers: the shift count is taken modulo 32 and the result read as a signed value.
\<close>

definition signMask :: "nat \<Rightarrow> int" where
  "signMask len = sint (NOT (push_bit ((8 * (len - 1)) mod 32) (0x80 :: 32 word)))"

text \<open>For a one-byte input \<open>secondMostSignificantByte\<close> is \<^verbatim>\<open>undefined\<close> in the source;
  the test \<open>length bytes \<le> 1\<close> comes first and its value is never looked at.\<close>

definition parseBytesAsScriptNumber :: "Uint8Array \<Rightarrow> ScriptNumberError + int" where
  "parseBytesAsScriptNumber bytes =
     (if length bytes = 0 then Inr 0
      else if length bytes > 4 then Inl outOfRange
      else
        let mostSignificantByte = bytes ! (length bytes - 1);
            secondMostSignificantByte = bytes ! (length bytes - 1 - 1)
        in if mostSignificantByte AND 0x7f = 0 \<and>
              (length bytes \<le> 1 \<or> secondMostSignificantByte AND 0x80 = 0)
           then Inl requiresMinimal
           else
             let result = parseLoop bytes 0 0;
                 isNegative = (bytes ! (length bytes - 1) AND 0x80 \<noteq> 0)
             in if isNegative then Inr (- (result AND signMask (length bytes)))
                else Inr result)"

text \<open>The loop of \<^verbatim>\<open>bigIntToScriptNumber\<close>; \<open>bytes\<close> is an array of numbers there.\<close>

function encodeLoop :: "int \<Rightarrow> int list \<Rightarrow> int list" where
  "encodeLoop remaining bytes =
     (if remaining > 0
      then encodeLoop (drop_bit 8 remaining) (bytes @ [remaining AND 0xff])
      else bytes)"
  by pat_completeness auto
termination
  by (relation "measure (\<lambda>(remaining, bytes). nat remaining)")
     (auto simp: drop_bit_eq_div intro: int_div_less_self)

declare encodeLoop.simps [simp del]

definition bigIntToScriptNumber :: "int \<Rightarrow> Uint8Array" where
  "bigIntToScriptNumber integer =
     (if integer = 0 then []
      else
        let isNegative = integer < 0;
            bytes = encodeLoop (if isNegative then - integer else integer) [];
            signFlippingByte = 0x80
        in map word_of_int
             (if bytes ! (length bytes - 1) AND signFlippingByte > 0
              then bytes @ [if isNegative then signFlippingByte else 0x00]
              else if isNegative
              then bytes[length bytes - 1 := bytes ! (length bytes - 1) OR signFlippingByte]
              else bytes))"

definition booleanToScriptNumber :: "bool \<Rightarrow> Uint8Array" where
  "booleanToScriptNumber b = (if b then bigIntToScriptNumber 1 else bigIntToScriptNumber 0)"

text \<open>
  The Script Number parser as the specification words it: the magnitude is the sum of
  \<open>bytes[i] << (8 * i)\<close>; an input is not minimal when the low 7 bits of the top byte are
  zero and the length is at most 1 or the high bit of the second-top byte is clear; a
  set \<open>0x80\<close> bit of the top byte makes the value negative, with that bit cleared.
\<close>

definition parseScriptNumber_spec :: "Uint8Array \<Rightarrow> ScriptNumberError + int" where
  "parseScriptNumber_spec bytes =
     (if bytes = [] then Inr 0
      else if length bytes > 4 then Inl outOfRange
      else if take_bit 7 (last bytes) = 0 \<and>
              (length bytes \<le> 1 \<or> \<not> bit (bytes ! (length bytes - 2)) 7)
      then Inl requiresMinimal
      else
        let magnitude = (\<Sum>i\<leftarrow>[0..<length bytes]. push_bit (8 * i) (uint (bytes ! i)))
        in if bit (last bytes) 7
           then Inr (- unset_bit (8 * length bytes - 1) magnitude)
           else Inr magnitude)"

text \<open>Auxiliary notions for the proofs: the little-endian value of a byte list and of a
  list of numbers, and the base-256 digits that \<open>encodeLoop\<close> appends.\<close>

fun leValue :: "Uint8Array \<Rightarrow> int" where
  "leValue [] = 0"
| "leValue (b # bs) = uint b + 256 * leValue bs"

fun leInts :: "int list \<Rightarrow> int" where
  "leInts [] = 0"
| "leInts (d # ds) = d + 256 * leInts ds"

function digits :: "int \<Rightarrow> int list" where
  "digits r = (if r > 0 then (r AND 0xff) # digits (drop_bit 8 r) else [])"
  by pat_completeness auto
termination
  by (relation "measure nat") (auto simp: drop_bit_eq_div intro: int_div_less_self)

declare digits.simps [simp del]

section \<open>Program state (state.ts)\<close>

datatype CommonAuthenticationError =
    emptyStack
  | malformedPush
  | nonMinimalPush
  | exceedsMaximumPush
  | unknownOpcode
  | failedVerify
  | calledReturn
  | invalidPublicKeyEncoding
  | invalidSignatureEncoding

text \<open>\<^verbatim>\<open>CommonProgramExternalState\<close>: the state of the transaction input and of the network.\<close>

record ExternalState =
  blockHeight :: int
  blockTime :: int
  correspondingOutputHash :: Uint8Array
  locktime :: int
  outpointIndex :: int
  outpointTransactionHash :: Uint8Array
  outpointValue :: int
  sequenceNumber :: int
  transactionOutpointsHash :: Uint8Array
  transactionOutputsHash :: Uint8Array
  transactionSequenceNumbersHash :: Uint8Array
  version :: int

text \<open>
  \<^verbatim>\<open>BitcoinCashAuthenticationProgramState\<close>: the external state and the internal one.
  The error is optional; the Bitcoin Cash instruction set adds no error of its own. The
  stack grows at the end of the list, as \<^verbatim>\<open>push\<close> and \<^verbatim>\<open>pop\<close> work on an array.
\<close>

record ProgramState = ExternalState +
  error :: "CommonAuthenticationError option"
  ip :: nat
  lastCodeSeparator :: int
  script :: Uint8Array
  stack :: "Uint8Array list"

record AuthenticationProgram =
  lockingScript :: Uint8Array
  programState :: ExternalState
  unlockingScript :: Uint8Array

record DebuggingStep =
  asm :: string
  description :: string
  state :: ProgramState

text \<open>The state \<^verbatim>\<open>fullState\<close> that the tests of the common instruction set start from.\<close>

definition fullState :: ProgramState where
  "fullState =
     \<lparr>blockHeight = 0,
      blockTime = 0,
      correspondingOutputHash = [],
      locktime = 0,
      outpointIndex = 0,
      outpointTransactionHash = [],
      outpointValue = 0,
      sequenceNumber = 0,
      transactionOutpointsHash = [],
      transactionOutputsHash = [],
      transactionSequenceNumbersHash = [],
      version = 2,
      error = None,
      ip = 0,
      lastCodeSeparator = - 1,
      script = [],
      stack = []\<rparr>"

text \<open>\<^verbatim>\<open>applyError\<close>: \<^verbatim>\<open>{ ...state, error }\<close>.\<close>

definition applyError :: "CommonAuthenticationError \<Rightarrow> ProgramState \<Rightarrow> ProgramState" where
  "applyError e s = s\<lparr>error := Some e\<rparr>"

text \<open>\<^verbatim>\<open>cloneStack\<close> copies every element; on values a copy is the element itself.\<close>

definition cloneStack :: "Uint8Array list \<Rightarrow> Uint8Array list" where
  "cloneStack stk = foldl (\<lambda>newStack element. newStack @ [slice element 0 (length element)]) [] stk"

section \<open>Push operations (push.ts)\<close>

datatype Uint = Uint8 | Uint16 | Uint32

text \<open>
  \<^verbatim>\<open>readLittleEndianLength\<close> builds a \<^verbatim>\<open>DataView\<close> of \<open>lengthBits\<close> bytes at \<open>ip\<close> over the
  buffer of the script and reads an unsigned integer at its start. The script is taken to
  fill its buffer, as every array made by \<^verbatim>\<open>slice\<close> does. The constructor throws a
  RangeError when the view does not fit into the buffer, and the read when the integer
  does not fit into the view.
\<close>

definition readLittleEndianLength :: "Uint8Array \<Rightarrow> nat \<Rightarrow> nat \<Rightarrow> Uint \<Rightarrow> exn + nat" where
  "readLittleEndianLength scr i lengthBits ty =
     (if length scr < i + lengthBits then Inl RangeError
      else
        let view = take lengthBits (drop i scr)
        in case ty of
             Uint8 \<Rightarrow>
               if length view < 1 then Inl RangeError
               else Inr (unat (view ! 0))
           | Uint16 \<Rightarrow>
               if length view < 2 then Inl RangeError
               else Inr (unat (view ! 0) + 256 * unat (view ! 1))
           | Uint32 \<Rightarrow>
               if length view < 4 then Inl RangeError
               else Inr (unat (view ! 0) + 256 * unat (view ! 1) + 65536 * unat (view ! 2)
                         + 16777216 * unat (view ! 3)))"

text \<open>\<^verbatim>\<open>pushDataVariableMethod\<close> inside \<^verbatim>\<open>createPushDataOperator\<close>: one handler for each
  of the five outcomes, tried in this order.\<close>

definition pushDataVariableMethod ::
  "nat \<Rightarrow> Uint \<Rightarrow> nat \<Rightarrow> nat \<Rightarrow>
   (ProgramState \<Rightarrow> 'r) \<Rightarrow> (ProgramState \<Rightarrow> nat \<Rightarrow> nat \<Rightarrow> 'r) \<Rightarrow>
   (ProgramState \<Rightarrow> nat \<Rightarrow> nat \<Rightarrow> 'r) \<Rightarrow> (ProgramState \<Rightarrow> nat \<Rightarrow> nat \<Rightarrow> 'r) \<Rightarrow>
   (ProgramState \<Rightarrow> nat \<Rightarrow> nat \<Rightarrow> 'r) \<Rightarrow> ProgramState \<Rightarrow> exn + 'r" where
  "pushDataVariableMethod lengthBits ty minimum maximum
     insufficientLengthBits insufficientTotalBits belowMinimumLength aboveMaximumLength valid s =
     (let pushBegin = ip s + lengthBits
      in if length (script s) < pushBegin then Inr (insufficientLengthBits s)
         else
           case readLittleEndianLength (script s) (ip s) lengthBits ty of
             Inl e \<Rightarrow> Inl e
           | Inr len \<Rightarrow>
               if length (script s) < pushBegin + len then Inr (insufficientTotalBits s pushBegin len)
               else if len < minimum then Inr (belowMinimumLength s pushBegin len)
               else if len > maximum then Inr (aboveMaximumLength s pushBegin len)
               else Inr (valid s pushBegin len))"

text \<open>The \<open>operation\<close> of the operator that \<^verbatim>\<open>createPushDataOperator\<close> returns; its
  \<open>asm\<close> and \<open>description\<close> only print. \<open>pushDataValid\<close> is the last handler.\<close>

definition pushDataValid :: "ProgramState \<Rightarrow> nat \<Rightarrow> nat \<Rightarrow> ProgramState" where
  "pushDataValid s pushBegin len =
     (let pushEnd = pushBegin + len
      in s\<lparr>stack := stack s @ [slice (script s) pushBegin pushEnd], ip := pushEnd\<rparr>)"

definition createPushDataOperator ::
  "nat \<Rightarrow> Uint \<Rightarrow> nat \<Rightarrow> nat \<Rightarrow> ProgramState \<Rightarrow> exn + ProgramState" where
  "createPushDataOperator lengthBits ty minimum maximum =
     pushDataVariableMethod lengthBits ty minimum maximum
       (\<lambda>s. applyError malformedPush s)
       (\<lambda>s pushBegin len. applyError malformedPush s)
       (\<lambda>s pushBegin len. applyError nonMinimalPush s)
       (\<lambda>s pushBegin len. applyError exceedsMaximumPush s)
       pushDataValid"

definition maximumPushDataConstant :: nat where
  "maximumPushDataConstant = 75"

definition maximumPushSize :: nat where
  "maximumPushSize = 520"

definition highestRepresentableNumberIn :: "nat \<Rightarrow> nat" where
  "highestRepresentableNumberIn bytes = 256 ^ bytes"

definition opPushData1 :: "ProgramState \<Rightarrow> exn + ProgramState" where
  "opPushData1 = createPushDataOperator 1 Uint8 maximumPushDataConstant maximumPushSize"

definition opPushData2 :: "ProgramState \<Rightarrow> exn + ProgramState" where
  "opPushData2 = createPushDataOperator 2 Uint16 (highestRepresentableNumberIn 1) maximumPushSize"

definition opPushData4 :: "ProgramState \<Rightarrow> exn + ProgramState" where
  "opPushData4 = createPushDataOperator 4 Uint32 (highestRepresentableNumberIn 2) maximumPushSize"

section \<open>Bitwise and cryptographic operations (bitwise.ts, crypto.ts)\<close>

function areEqual_loop :: "Uint8Array \<Rightarrow> Uint8Array \<Rightarrow> nat \<Rightarrow> bool" where
  "areEqual_loop a b i =
     (if i < length a
      then if a ! i \<noteq> b ! i then False else areEqual_loop a b (i + 1)
      else True)"
  by pat_completeness auto
termination
  by (relation "measure (\<lambda>(a, b, i). length a - i)") auto

declare areEqual_loop.simps [simp del]

definition areEqual :: "Uint8Array \<Rightarrow> Uint8Array \<Rightarrow> bool" where
  "areEqual a b = (if length a \<noteq> length b then False else areEqual_loop a b 0)"

text \<open>The pops change the stack of the state before the test, so the state that
  \<^verbatim>\<open>applyError\<close> copies has lost the popped elements.\<close>

definition opEqual :: "ProgramState \<Rightarrow> ProgramState" where
  "opEqual s =
     (let (element1, stack1) = pop (stack s);
          (element2, stack2) = pop stack1;
          s2 = s\<lparr>stack := stack2\<rparr>
      in case (element1, element2) of
           (Some e1, Some e2) \<Rightarrow>
             s2\<lparr>stack := stack s2 @ [booleanToScriptNumber (areEqual e1 e2)]\<rparr>
         | _ \<Rightarrow> applyError emptyStack s2)"

text \<open>
  \<^verbatim>\<open>opCheckSig\<close>. The source takes \<open>sha256\<close> and \<open>secp256k1\<close> as arguments; here the
  functions it imports from \<^verbatim>\<open>encoding.ts\<close> and \<^verbatim>\<open>signing-serialization.ts\<close> are arguments
  too: \<open>isValidPublicKeyEncoding\<close>, \<open>isValidSignatureEncoding\<close>, \<open>decodeBitcoinSignature\<close>
  (which returns the signing serialization type and the signature) and
  \<open>generateBitcoinCashSigningSerialization\<close>.
\<close>

definition opCheckSig ::
  "(Uint8Array \<Rightarrow> Uint8Array) \<Rightarrow> (Uint8Array \<Rightarrow> Uint8Array \<Rightarrow> Uint8Array \<Rightarrow> bool) \<Rightarrow>
   (Uint8Array \<Rightarrow> bool) \<Rightarrow> (Uint8Array \<Rightarrow> bool) \<Rightarrow> (Uint8Array \<Rightarrow> 't \<times> Uint8Array) \<Rightarrow>
   (int \<Rightarrow> Uint8Array \<Rightarrow> Uint8Array \<Rightarrow> Uint8Array \<Rightarrow> int \<Rightarrow> Uint8Array \<Rightarrow> int \<Rightarrow> int \<Rightarrow>
    Uint8Array \<Rightarrow> Uint8Array \<Rightarrow> int \<Rightarrow> 't \<Rightarrow> Uint8Array) \<Rightarrow>
   ProgramState \<Rightarrow> ProgramState" where
  "opCheckSig sha256 verifySignatureDERLowS isValidPublicKeyEncoding isValidSignatureEncoding
     decodeBitcoinSignature generateBitcoinCashSigningSerialization s =
     (let (publicKey, stack1) = pop (stack s);
          (bitcoinEncodedSignature, stack2) = pop stack1;
          s2 = s\<lparr>stack := stack2\<rparr>
      in case (publicKey, bitcoinEncodedSignature) of
           (Some pk, Some sg) \<Rightarrow>
             if \<not> isValidPublicKeyEncoding pk then applyError invalidPublicKeyEncoding s2
             else if \<not> isValidSignatureEncoding sg then applyError invalidSignatureEncoding s2
             else
               let scr = subarrayFrom (script s2) (lastCodeSeparator s2 + 1);
                   scriptCode = bigIntToBitcoinVarInt (int (length scr)) @ scr;
                   (signingSerializationType, signature) = decodeBitcoinSignature sg;
                   serialization = generateBitcoinCashSigningSerialization
                     (version s2) (transactionOutpointsHash s2)
                     (transactionSequenceNumbersHash s2) (outpointTransactionHash s2)
                     (outpointIndex s2) scriptCode (outpointValue s2) (sequenceNumber s2)
                     (correspondingOutputHash s2) (transactionOutputsHash s2) (locktime s2)
                     signingSerializationType;
                   digest = sha256 (sha256 serialization)
               in s2\<lparr>stack := stack s2 @
                    [booleanToScriptNumber (verifySignatureDERLowS signature pk digest)]\<rparr>
         | _ \<Rightarrow> applyError emptyStack s2)"

section \<open>The Bitcoin Cash program composer (bitcoin-cash.ts)\<close>

text \<open>Modelled from the spec: the opcode numbers of the enumeration \<^verbatim>\<open>BitcoinCashOpCodes\<close>,
  whose file is not part of the sources at hand.\<close>

definition OP_16 :: byte where "OP_16 = 0x60"
definition OP_HASH160 :: byte where "OP_HASH160 = 0xa9"
definition OP_DATA_20 :: byte where "OP_DATA_20 = 0x14"
definition OP_EQUAL :: byte where "OP_EQUAL = 0x87"

definition isPayToScriptHash :: "Uint8Array \<Rightarrow> bool" where
  "isPayToScriptHash lscript \<longleftrightarrow>
     length lscript = 23 \<and>
     lscript ! 0 = OP_HASH160 \<and>
     lscript ! 1 = OP_DATA_20 \<and>
     lscript ! 22 = OP_EQUAL"

definition isPushOnly :: "Uint8Array \<Rightarrow> bool" where
  "isPushOnly scr = list_all (\<lambda>v. v < OP_16) scr"

text \<open>The state a pass starts from:
  \<^verbatim>\<open>{ ip: 0, lastCodeSeparator: -1, stack, ...program.state, script }\<close>.\<close>

definition passState :: "Uint8Array list \<Rightarrow> ExternalState \<Rightarrow> Uint8Array \<Rightarrow> ProgramState" where
  "passState stk ext scr =
     \<lparr>blockHeight = blockHeight ext,
      blockTime = blockTime ext,
      correspondingOutputHash = correspondingOutputHash ext,
      locktime = locktime ext,
      outpointIndex = outpointIndex ext,
      outpointTransactionHash = outpointTransactionHash ext,
      outpointValue = outpointValue ext,
      sequenceNumber = sequenceNumber ext,
      transactionOutpointsHash = transactionOutpointsHash ext,
      transactionOutputsHash = transactionOutputsHash ext,
      transactionSequenceNumbersHash = transactionSequenceNumbersHash ext,
      version = version ext,
      error = None,
      ip = 0,
      lastCodeSeparator = - 1,
      script = scr,
      stack = stk\<rparr>"

text \<open>
  \<^verbatim>\<open>debugBitcoinCashAuthenticationProgram\<close>. The virtual machine is an argument of the
  source function; only its \<open>debug\<close> method is used, and it is the argument \<open>debug\<close> here.
  Reading the state of the last step of an empty trace throws a TypeError, and so does
  a pass whose script is \<^verbatim>\<open>undefined\<close>.
\<close>

definition debugBitcoinCashAuthenticationProgram ::
  "(ProgramState \<Rightarrow> string \<Rightarrow> DebuggingStep list) \<Rightarrow> AuthenticationProgram \<Rightarrow>
   exn + DebuggingStep list" where
  "debugBitcoinCashAuthenticationProgram debug program =
     (let unlockingScriptResult =
            debug (passState [] (programState program) (unlockingScript program))
              ''Begin unlocking script evaluation.''
      in if unlockingScriptResult = [] then Inl TypeError
         else
           let unlockingScriptFinalState = state (last unlockingScriptResult)
           in if error unlockingScriptFinalState \<noteq> None then Inr unlockingScriptResult
              else
                let lockingScriptResult =
                      debug (passState (stack unlockingScriptFinalState) (programState program)
                               (lockingScript program))
                        ''Begin locking script evaluation.''
                in if lockingScriptResult = [] then Inl TypeError
                   else
                     let lockingScriptFinalState = state (last lockingScriptResult)
                     in if isPayToScriptHash (lockingScript program)
                        then
                          if \<not> isPushOnly (unlockingScript program)
                          then Inr (unlockingScriptResult @ lockingScriptResult @
                                 [\<lparr>asm = ''[P2SH error]'',
                                   description = ''P2SH error: unlockingScript must be push-only.'',
                                   state = lockingScriptFinalState\<rparr>])
                          else if length (stack unlockingScriptFinalState) = 0
                          then Inr (unlockingScriptResult @ lockingScriptResult @
                                 [\<lparr>asm = ''[P2SH error]'',
                                   description =
                                     ''P2SH error: unlockingScript must not leave an empty stack.'',
                                   state = lockingScriptFinalState\<rparr>])
                          else
                            let (p2shScript, p2shStack) =
                                  pop (cloneStack (stack unlockingScriptFinalState))
                            in case p2shScript of
                                 None \<Rightarrow> Inl TypeError
                               | Some scr \<Rightarrow>
                                   let p2shScriptResult =
                                         debug (passState p2shStack (programState program) scr)
                                           ''Begin P2SH script evaluation.''
                                   in Inr (unlockingScriptResult @ lockingScriptResult @
                                        p2shScriptResult)
                        else Inr (unlockingScriptResult @ lockingScriptResult))"

section \<open>Cloning a state: arrays as objects of a store\<close>

text \<open>
  Whether a write to the clone shows in the original depends on which arrays the two
  states share. Here a state holds references into a store of byte arrays; the primed
  field names are those of \<^verbatim>\<open>BitcoinCashAuthenticationProgramState\<close>. The stack is a
  list of references: \<^verbatim>\<open>state.stack.slice()\<close> makes a new list of the same references.
\<close>

type_synonym ref = nat
type_synonym store = "Uint8Array list"

record StateObject =
  error' :: "CommonAuthenticationError option"
  blockHeight' :: int
  blockTime' :: int
  correspondingOutputHash' :: ref
  ip' :: nat
  lastCodeSeparator' :: int
  locktime' :: int
  outpointIndex' :: int
  outpointTransactionHash' :: ref
  outpointValue' :: int
  script' :: ref
  sequenceNumber' :: int
  stack' :: "ref list"
  transactionOutpointsHash' :: ref
  transactionOutputsHash' :: ref
  transactionSequenceNumbersHash' :: ref
  version' :: int

text \<open>\<^verbatim>\<open>array.slice()\<close> of a \<^verbatim>\<open>Uint8Array\<close>: a new array with the same bytes.\<close>

definition sliceObject :: "store \<Rightarrow> ref \<Rightarrow> ref \<times> store" where
  "sliceObject h r = (length h, h @ [h ! r])"

text \<open>\<^verbatim>\<open>array[i] = v\<close>; a write past the end of a \<^verbatim>\<open>Uint8Array\<close> is ignored.\<close>

definition writeByte :: "store \<Rightarrow> ref \<Rightarrow> nat \<Rightarrow> byte \<Rightarrow> store" where
  "writeByte h r i v = h[r := (h ! r)[i := v]]"

text \<open>The \<open>clone\<close> of \<^verbatim>\<open>bitcoinCashInstructionSet\<close>, the fields in the order of the source.\<close>

definition clone :: "store \<Rightarrow> StateObject \<Rightarrow> StateObject \<times> store" where
  "clone h s =
     (let (coh, h1) = sliceObject h (correspondingOutputHash' s);
          (oth, h2) = sliceObject h1 (outpointTransactionHash' s);
          (scr, h3) = sliceObject h2 (script' s);
          (toh, h4) = sliceObject h3 (transactionOutpointsHash' s);
          (tuh, h5) = sliceObject h4 (transactionOutputsHash' s);
          (tsh, h6) = sliceObject h5 (transactionSequenceNumbersHash' s)
      in (\<lparr>error' = error' s,
           blockHeight' = blockHeight' s,
           blockTime' = blockTime' s,
           correspondingOutputHash' = coh,
           ip' = ip' s,
           lastCodeSeparator' = lastCodeSeparator' s,
           locktime' = locktime' s,
           outpointIndex' = outpointIndex' s,
           outpointTransactionHash' = oth,
           outpointValue' = outpointValue' s,
           script' = scr,
           sequenceNumber' = sequenceNumber' s,
           stack' = stack' s,
           transactionOutpointsHash' = toh,
           transactionOutputsHash' = tuh,
           transactionSequenceNumbersHash' = tsh,
           version' = version' s\<rparr>, h6))"

text \<open>The bytes a state holds in a store: the state with every reference read.\<close>

definition contents :: "store \<Rightarrow> StateObject \<Rightarrow> ProgramState" where
  "contents h s =
     \<lparr>blockHeight = blockHeight' s,
      blockTime = blockTime' s,
      correspondingOutputHash = h ! correspondingOutputHash' s,
      locktime = locktime' s,
      outpointIndex = outpointIndex' s,
      outpointTransactionHash = h ! outpointTransactionHash' s,
      outpointValue = outpointValue' s,
      sequenceNumber = sequenceNumber' s,
      transactionOutpointsHash = h ! transactionOutpointsHash' s,
      transactionOutputsHash = h ! transactionOutputsHash' s,
      transactionSequenceNumbersHash = h ! transactionSequenceNumbersHash' s,
      version = version' s,
      error = error' s,
      ip = ip' s,
      lastCodeSeparator = lastCodeSeparator' s,
      script = h ! script' s,
      stack = map (\<lambda>r. h ! r) (stack' s)\<rparr>"

text \<open>Every reference of a state points into the store.\<close>

definition wellFormed :: "store \<Rightarrow> StateObject \<Rightarrow> bool" where
  "wellFormed h s \<longleftrightarrow>
     correspondingOutputHash' s < length h \<and> outpointTransactionHash' s < length h \<and>
     script' s < length h \<and> transactionOutpointsHash' s < length h \<and>
     transactionOutputsHash' s < length h \<and> transactionSequenceNumbersHash' s < length h \<and>
     list_all (\<lambda>r. r < length h) (stack' s)"

section \<open>The Script Number parser\<close>

lemma leValue_nonneg: "0 \<le> leValue bs"
  by (induction bs) auto

lemma leValue_less: "leValue bs < 2 ^ (8 * length bs)"
proof (induction bs)
  case Nil
  then show ?case by simp
next
  case (Cons b bs)
  have "uint b < 256" using uint_bounded [of b] by simp
  moreover have "leValue bs + 1 \<le> 2 ^ (8 * length bs)" using Cons by simp
  then have "256 * (leValue bs + 1) \<le> 256 * 2 ^ (8 * length bs)" by (rule mult_left_mono) simp
  ultimately show ?case by (simp add: power_add algebra_simps)
qed

lemma or_push_bit_add:
  fixes acc :: int
  assumes "0 \<le> acc" "acc < 2 ^ k"
  shows "acc OR push_bit k x = acc + push_bit k x"
proof -
  have "acc AND push_bit k x = 0"
  proof (rule bit_eqI)
    fix n
    show "bit (acc AND push_bit k x) n = bit (0::int) n"
    proof (cases "n < k")
      case True
      then show ?thesis by (simp add: bit_and_iff bit_push_bit_iff)
    next
      case False
      then have "acc < 2 ^ n" using assms(2)
        by (meson less_le_trans not_less one_le_numeral power_increasing)
      then have "\<not> bit acc n" using assms(1)
        by (simp add: bit_iff_odd)
      then show ?thesis by (simp add: bit_and_iff)
    qed
  qed
  then show ?thesis by (simp add: disjunctive_add_eq_or)
qed

lemma parseLoop_eq:
  "0 \<le> result \<Longrightarrow> result < 2 ^ (8 * byte) \<Longrightarrow>
   parseLoop bytes byte result = result + push_bit (8 * byte) (leValue (drop byte bytes))"
proof (induction bytes byte result rule: parseLoop.induct)
  case (1 bytes byte result)
  show ?case
  proof (cases "byte < length bytes")
    case True
    let ?b = "uint (bytes ! byte)"
    let ?r = "result OR push_bit (byte * 8) ?b"
    have eq: "?r = result + push_bit (8 * byte) ?b"
      using or_push_bit_add [OF "1.prems", of ?b] by (simp add: mult.commute)
    have b: "0 \<le> ?b" "?b < 256" using uint_bounded [of "bytes ! byte"] by simp_all
    have nn: "0 \<le> ?r" using "1.prems" b by (simp add: eq push_bit_eq_mult)
    define X :: int where "X = 2 ^ (8 * byte)"
    have "?b * X \<le> 255 * X"
      using b by (intro mult_right_mono) (simp_all add: X_def)
    moreover have "result < X" using "1.prems" by (simp add: X_def)
    ultimately have "result + ?b * X < 256 * X" by linarith
    then have "result + push_bit (8 * byte) ?b < 256 * 2 ^ (8 * byte)"
      by (simp add: push_bit_eq_mult X_def)
    then have lt: "?r < 2 ^ (8 * (byte + 1))"
      unfolding eq by (simp add: power_add)
    have d: "drop byte bytes = bytes ! byte # drop (byte + 1) bytes"
      using True by (simp add: Cons_nth_drop_Suc)
    have "parseLoop bytes byte result = parseLoop bytes (byte + 1) ?r"
      using True by (subst parseLoop.simps) simp
    also have "\<dots> = ?r + push_bit (8 * (byte + 1)) (leValue (drop (byte + 1) bytes))"
      using "1.IH" [OF True nn lt] .
    also have "\<dots> = result + push_bit (8 * byte) (leValue (drop byte bytes))"
      unfolding eq d by (simp add: push_bit_eq_mult power_add algebra_simps)
    finally show ?thesis .
  next
    case False
    then show ?thesis by (subst parseLoop.simps) simp
  qed
qed

lemma parseLoop_leValue: "parseLoop bytes 0 0 = leValue bytes"
  using parseLoop_eq [of 0 0 bytes] by simp

lemma leValue_sum_aux:
  "(\<Sum>i\<leftarrow>[0..<length bs]. push_bit (8 * (i + k)) (uint (bs ! i))) = push_bit (8 * k) (leValue bs)"
proof (induction bs arbitrary: k)
  case Nil
  then show ?case by simp
next
  case (Cons b bs)
  have "[0..<length (b # bs)] = 0 # map Suc [0..<length bs]"
    by (simp add: upt_conv_Cons map_Suc_upt del: upt_Suc)
  then have "(\<Sum>i\<leftarrow>[0..<length (b # bs)]. push_bit (8 * (i + k)) (uint ((b # bs) ! i)))
      = push_bit (8 * k) (uint b) + (\<Sum>i\<leftarrow>[0..<length bs]. push_bit (8 * (i + Suc k)) (uint (bs ! i)))"
    by (simp add: comp_def add_ac)
  also have "\<dots> = push_bit (8 * k) (uint b) + push_bit (8 * Suc k) (leValue bs)"
    using Cons [of "Suc k"] by simp
  also have "\<dots> = push_bit (8 * k) (leValue (b # bs))"
    by (simp add: push_bit_eq_mult power_add algebra_simps)
  finally show ?case .
qed

lemma leValue_sum:
  "(\<Sum>i\<leftarrow>[0..<length bs]. push_bit (8 * i) (uint (bs ! i))) = leValue bs"
  using leValue_sum_aux [where bs = bs and k = 0] by simp

lemma low7_zero_iff: "(w AND 0x7f = 0) = (take_bit 7 w = 0)" for w :: byte
proof -
  have "(0x7f :: byte) = mask 7" by (simp add: mask_eq_exp_minus_1)
  then show ?thesis by (simp add: take_bit_eq_mask)
qed

lemma high_bit_clear_iff: "(w AND 0x80 = 0) = (\<not> bit w 7)" for w :: byte
  using and_exp_eq_0_iff_not_bit [of w 7] by simp

lemma signMask_values:
  "signMask 1 = NOT (push_bit 7 1)" "signMask 2 = NOT (push_bit 15 1)"
  "signMask 3 = NOT (push_bit 23 1)" "signMask 4 = mask 31"
  by (simp_all add: signMask_def not_int_def mask_eq_exp_minus_1)

lemma and_mask31_unset:
  fixes r :: int
  assumes "0 \<le> r" "r < 2 ^ 32"
  shows "r AND mask 31 = unset_bit 31 r"
proof (rule bit_eqI)
  fix n
  have hi: "\<not> bit r n" if "32 \<le> n"
  proof -
    have "r < 2 ^ n" using assms(2) that
      by (meson less_le_trans one_le_numeral power_increasing)
    then show ?thesis using assms(1) by (simp add: bit_iff_odd)
  qed
  show "bit (r AND mask 31) n = bit (unset_bit 31 r) n"
  proof (cases "n < 31")
    case True
    then show ?thesis by (simp add: bit_and_iff bit_mask_iff bit_unset_bit_iff)
  next
    case False
    then have "n = 31 \<or> 32 \<le> n" by arith
    then show ?thesis using hi by (auto simp: bit_and_iff bit_mask_iff bit_unset_bit_iff)
  qed
qed

lemma clear_sign_bit:
  assumes "1 \<le> len" "len \<le> 4" "0 \<le> r" "r < 2 ^ (8 * len)"
  shows "r AND signMask len = unset_bit (8 * len - 1) r"
proof -
  from assms(1,2) consider "len = 1" | "len = 2" | "len = 3" | "len = 4" by arith
  then show ?thesis
  proof cases
    case 1
    show ?thesis unfolding 1 signMask_values by (simp add: unset_bit_int_def)
  next
    case 2
    show ?thesis unfolding 2 signMask_values by (simp add: unset_bit_int_def)
  next
    case 3
    show ?thesis unfolding 3 signMask_values by (simp add: unset_bit_int_def)
  next
    case 4
    have "r AND mask 31 = unset_bit 31 r"
      using assms(3,4) by (intro and_mask31_unset) (simp_all add: 4)
    then show ?thesis unfolding 4 signMask_values by simp
  qed
qed

lemma parseBytesAsScriptNumber_short:
  assumes "bytes \<noteq> []" "length bytes \<le> 4"
  shows "parseBytesAsScriptNumber bytes =
     (if take_bit 7 (last bytes) = 0 \<and>
         (length bytes \<le> 1 \<or> \<not> bit (bytes ! (length bytes - 2)) 7)
      then Inl requiresMinimal
      else if bit (last bytes) 7
      then Inr (- (leValue bytes AND signMask (length bytes)))
      else Inr (leValue bytes))"
proof -
  have top: "bytes ! (length bytes - 1) = last bytes"
    using assms(1) by (simp add: last_conv_nth)
  have snd: "length bytes - 1 - 1 = length bytes - 2" by simp
  have c: "(length bytes = 0) = False" "(4 < length bytes) = False"
    using assms by simp_all
  show ?thesis
    unfolding parseBytesAsScriptNumber_def Let_def top snd c
      low7_zero_iff high_bit_clear_iff parseLoop_leValue
    by simp
qed

lemma parse_refines_spec: "parseBytesAsScriptNumber bytes = parseScriptNumber_spec bytes"
proof (cases "bytes = [] \<or> 4 < length bytes")
  case True
  then show ?thesis
    by (auto simp: parseBytesAsScriptNumber_def parseScriptNumber_spec_def)
next
  case False
  then have ne: "bytes \<noteq> []" and len: "1 \<le> length bytes" "length bytes \<le> 4"
    by (auto simp: Suc_le_eq)
  have clr: "leValue bytes AND signMask (length bytes) = unset_bit (8 * length bytes - 1) (leValue bytes)"
    using clear_sign_bit [OF len leValue_nonneg leValue_less] .
  have c: "(bytes = []) = False" "(4 < length bytes) = False"
    using ne len by simp_all
  show ?thesis
    unfolding parseBytesAsScriptNumber_short [OF ne len(2)] parseScriptNumber_spec_def
      Let_def leValue_sum clr c
    by simp
qed

section \<open>The Script Number encoder\<close>

lemma encodeLoop_digits: "encodeLoop r acc = acc @ digits r"
proof (induction r arbitrary: acc rule: digits.induct)
  case (1 r)
  show ?case
  proof (cases "r > 0")
    case True
    have "encodeLoop r acc = encodeLoop (drop_bit 8 r) (acc @ [r AND 0xff])"
      using True by (subst encodeLoop.simps) simp
    also have "\<dots> = (acc @ [r AND 0xff]) @ digits (drop_bit 8 r)"
      using 1 [OF True] .
    also have "\<dots> = acc @ digits r"
      using True by (subst (2) digits.simps) simp
    finally show ?thesis .
  next
    case False
    then show ?thesis by (subst encodeLoop.simps, subst digits.simps) simp
  qed
qed

lemma and_255: "r AND 255 = r mod 256" for r :: int
proof -
  have "r AND mask 8 = r mod 2 ^ 8" by (simp add: take_bit_eq_mod flip: take_bit_eq_mask)
  then show ?thesis by (simp add: mask_eq_exp_minus_1)
qed

lemma leInts_digits: "0 \<le> r \<Longrightarrow> leInts (digits r) = r"
proof (induction r rule: digits.induct)
  case (1 r)
  show ?case
  proof (cases "r > 0")
    case True
    have "0 \<le> drop_bit 8 r" using "1.prems" by simp
    then have "leInts (digits (drop_bit 8 r)) = drop_bit 8 r" using "1.IH" True by simp
    then show ?thesis using True
      by (subst digits.simps) (simp add: and_255 drop_bit_eq_div)
  next
    case False
    then show ?thesis using "1.prems" by (subst digits.simps) simp
  qed
qed

lemma digits_range: "x \<in> set (digits r) \<Longrightarrow> 0 \<le> x \<and> x < 256"
proof (induction r rule: digits.induct)
  case (1 r)
  show ?case
  proof (cases "r > 0")
    case True
    then have "x = r AND 0xff \<or> x \<in> set (digits (drop_bit 8 r))"
      using "1.prems" by (subst (asm) digits.simps) simp
    then show ?thesis using "1.IH" True by (auto simp: and_255)
  next
    case False
    then show ?thesis using "1.prems" by (subst (asm) digits.simps) simp
  qed
qed

lemma digits_last: "0 < r \<Longrightarrow> digits r \<noteq> [] \<and> 0 < last (digits r)"
proof (induction r rule: digits.induct)
  case (1 r)
  have unf: "digits r = (r AND 0xff) # digits (drop_bit 8 r)"
    using "1.prems" by (subst digits.simps) simp
  show ?case
  proof (cases "0 < drop_bit 8 r")
    case True
    then show ?thesis using "1.IH" "1.prems" unf by simp
  next
    case False
    then have z: "r div 256 = 0" using "1.prems" by (simp add: drop_bit_eq_div)
    then have "digits (drop_bit 8 r) = []" by (subst digits.simps) (simp add: drop_bit_eq_div)
    moreover have "r mod 256 = r" using z "1.prems"
      by (metis add.left_neutral mult_zero_right mult_div_mod_eq)
    ultimately show ?thesis using unf "1.prems" by (simp add: and_255)
  qed
qed

lemma leInts_snoc: "leInts (xs @ [t]) = leInts xs + t * 256 ^ length xs"
  by (induction xs) (simp_all add: algebra_simps)

lemma leInts_bounds:
  "(\<And>x. x \<in> set xs \<Longrightarrow> 0 \<le> x \<and> x < 256) \<Longrightarrow> 0 \<le> leInts xs \<and> leInts xs < 256 ^ length xs"
proof (induction xs)
  case Nil
  then show ?case by simp
next
  case (Cons a xs)
  then have a: "0 \<le> a" "a < 256" by auto
  have ih: "0 \<le> leInts xs" "leInts xs + 1 \<le> 256 ^ length xs" using Cons by auto
  from ih(2) have "256 * (leInts xs + 1) \<le> 256 * 256 ^ length xs" by (rule mult_left_mono) simp
  then show ?case using a ih(1) by (simp add: algebra_simps)
qed

lemma uint_byte_of_int: "0 \<le> x \<Longrightarrow> x < 256 \<Longrightarrow> uint (word_of_int x :: byte) = x"
  by (simp add: uint_word_of_int_eq take_bit_int_eq_self)

lemma leValue_map:
  "(\<And>x. x \<in> set xs \<Longrightarrow> 0 \<le> x \<and> x < 256) \<Longrightarrow> leValue (map word_of_int xs) = leInts xs"
  by (induction xs) (simp_all add: uint_byte_of_int)

lemma leValue_snoc: "leValue (ws @ [w]) = leValue ws + uint w * 256 ^ length ws"
  by (induction ws) (simp_all add: algebra_simps)

lemma byte_bit7: "bit w 7 = (128 \<le> uint w)" for w :: byte
proof -
  have b: "uint w < 256" "0 \<le> uint w" using uint_bounded [of w] by simp_all
  have "bit w 7 = bit (uint w) 7" by (simp add: bit_uint_iff)
  also have "\<dots> = odd (uint w div 2 ^ 7)" by (rule bit_iff_odd)
  also have "\<dots> = (128 \<le> uint w)"
  proof (cases "128 \<le> uint w")
    case True
    then have "uint w div 2 ^ 7 = 1" using b by simp
    then show ?thesis using True by simp
  next
    case False
    then have "uint w div 2 ^ 7 = 0" using b by simp
    then show ?thesis using False by simp
  qed
  finally show ?thesis .
qed

lemma byte_low7: "(take_bit 7 w = 0) = (uint w = 0 \<or> uint w = 128)" for w :: byte
proof -
  have b: "uint w < 256" "0 \<le> uint w" using uint_bounded [of w] by simp_all
  have "(take_bit 7 w = 0) = (uint (take_bit 7 w) = 0)" by (simp add: word_uint_eq_iff)
  also have "\<dots> = (take_bit 7 (uint w) = 0)" by (simp only: unsigned_take_bit_eq)
  also have "\<dots> = (uint w mod 128 = 0)" by (simp add: take_bit_eq_mod)
  also have "\<dots> = (uint w = 0 \<or> uint w = 128)" using b by presburger
  finally show ?thesis .
qed

lemma pow256: "(2::int) ^ (8 * k) = 256 ^ k"
  by (simp add: power_mult)

lemma parse_snoc:
  assumes len: "length ws \<le> 3"
    and minimal: "\<not> (take_bit 7 w = 0 \<and> (ws = [] \<or> \<not> bit (last ws) 7))"
  shows "parseBytesAsScriptNumber (ws @ [w]) =
     (if bit w 7 then Inr (- (leValue ws + (uint w - 128) * 256 ^ length ws))
      else Inr (leValue ws + uint w * 256 ^ length ws))"
proof -
  let ?bs = "ws @ [w]" and ?k = "length ws"
  have ne: "?bs \<noteq> []" and l4: "length ?bs \<le> 4" using len by simp_all
  have second: "?bs ! (length ?bs - 2) = last ws" if "ws \<noteq> []"
    using that by (simp add: nth_append last_conv_nth)
  have nm: "\<not> (take_bit 7 (last ?bs) = 0 \<and>
      (length ?bs \<le> 1 \<or> \<not> bit (?bs ! (length ?bs - 2)) 7))"
  proof (cases "ws = []")
    case True
    then show ?thesis using minimal by simp
  next
    case False
    then have "\<not> length ?bs \<le> 1" by (cases ws) simp_all
    then show ?thesis using minimal second [OF False] False by auto
  qed
  have V: "leValue ?bs = leValue ws + uint w * 256 ^ ?k" by (rule leValue_snoc)
  have short: "parseBytesAsScriptNumber ?bs =
      (if bit w 7 then Inr (- (leValue ?bs AND signMask (length ?bs))) else Inr (leValue ?bs))"
    using parseBytesAsScriptNumber_short [OF ne l4] nm by simp
  show ?thesis
  proof (cases "bit w 7")
    case True
    have "leValue ?bs AND signMask (length ?bs) = unset_bit (8 * length ?bs - 1) (leValue ?bs)"
      using l4 leValue_nonneg [of ?bs] leValue_less [of ?bs]
      by (intro clear_sign_bit) simp_all
    also have "\<dots> = unset_bit (8 * ?k + 7) (leValue ?bs)"
    proof -
      have "8 * length ?bs - 1 = 8 * ?k + 7" by simp
      then show ?thesis by (simp only:)
    qed
    also have "\<dots> = leValue ?bs - of_bool (bit (leValue ?bs) (8 * ?k + 7)) * 2 ^ (8 * ?k + 7)"
      by (rule unset_bit_eq)
    finally have u: "leValue ?bs AND signMask (length ?bs) =
        leValue ?bs - of_bool (bit (leValue ?bs) (8 * ?k + 7)) * 2 ^ (8 * ?k + 7)" .
    have "bit (leValue ?bs) (8 * ?k + 7)"
    proof -
      have "leValue ?bs = leValue ws + push_bit (8 * ?k) (uint w)"
        by (simp add: V push_bit_eq_mult pow256)
      also have "\<dots> = leValue ws OR push_bit (8 * ?k) (uint w)"
        using or_push_bit_add [OF leValue_nonneg leValue_less, of ws "uint w"] by simp
      finally show ?thesis using True
        by (simp add: bit_or_iff bit_push_bit_iff bit_uint_iff)
    qed
    with u have "leValue ?bs AND signMask (length ?bs) = leValue ?bs - 2 ^ (8 * ?k + 7)"
      by simp
    also have "\<dots> = leValue ws + (uint w - 128) * 256 ^ ?k"
    proof -
      have "(2::int) ^ (8 * ?k + 7) = 128 * 256 ^ ?k" by (simp add: power_add pow256)
      then show ?thesis unfolding V by (simp add: algebra_simps)
    qed
    finally show ?thesis using True short by simp
  next
    case False
    then show ?thesis using short V by simp
  qed
qed

lemma bigIntToScriptNumber_snoc:
  assumes "n \<noteq> 0" "encodeLoop \<bar>n\<bar> [] = bs @ [t]"
  shows "bigIntToScriptNumber n = map word_of_int
     (if t AND 0x80 > 0 then bs @ [t, if n < 0 then 0x80 else 0x00]
      else if n < 0 then bs @ [t OR 0x80] else bs @ [t])"
proof -
  have a: "(if n < 0 then - n else n) = \<bar>n\<bar>" by simp
  show ?thesis
    unfolding bigIntToScriptNumber_def Let_def a assms(2)
    using assms(1) by simp
qed

section \<open>Properties of the Script Number codec\<close>

lemma scriptNumber_roundtrip_aux:
  assumes "\<bar>n\<bar> \<le> 2 ^ 31 - 1"
  shows "parseBytesAsScriptNumber (bigIntToScriptNumber n) = Inr n"
proof (cases "n = 0")
  case True
  then show ?thesis by (simp add: bigIntToScriptNumber_def parseBytesAsScriptNumber_def)
next
  case False
  define m where "m = \<bar>n\<bar>"
  have m: "0 < m" "m < 2 ^ 31" using False assms by (simp_all add: m_def)
  define bs where "bs = butlast (digits m)"
  define t where "t = last (digits m)"
  have ds: "digits m = bs @ [t]"
    using digits_last [OF m(1)] by (simp add: bs_def t_def)
  have rng: "\<And>x. x \<in> set (bs @ [t]) \<Longrightarrow> 0 \<le> x \<and> x < 256"
    using digits_range [of _ m] by (simp add: ds)
  have t: "0 < t" "t < 256" using digits_last [OF m(1)] rng by (simp_all add: t_def)
  have bsr: "\<And>x. x \<in> set bs \<Longrightarrow> 0 \<le> x \<and> x < 256" using rng by simp
  define B where "B = leInts bs"
  define k where "k = length bs"
  have B: "0 \<le> B" "B < 256 ^ k" using leInts_bounds [of bs] bsr by (auto simp: B_def k_def)
  have mval: "m = B + t * 256 ^ k"
    using leInts_digits [of m] m(1) by (simp add: ds leInts_snoc B_def k_def)
  define X :: int where "X = 256 ^ k"
  have X: "0 < X" "m = B + t * X" using mval by (simp_all add: X_def)
  have Bw: "leValue (map word_of_int bs) = B"
    using leValue_map [of bs] bsr by (simp add: B_def)
  have enc: "encodeLoop \<bar>n\<bar> [] = bs @ [t]"
    using ds by (simp add: encodeLoop_digits m_def)
  note out0 = bigIntToScriptNumber_snoc [OF False enc]
  have k3: "k \<le> 3"
  proof (rule ccontr)
    assume "\<not> k \<le> 3"
    then have "4 \<le> k" by simp
    then have "(256::int) ^ 4 \<le> 256 ^ k" by (rule power_increasing) simp
    then have "4294967296 \<le> X" by (simp add: X_def)
    moreover have "X \<le> t * X" using t X(1) by simp
    moreover have "m < 2147483648" using m(2) by simp
    ultimately show False using B(1) X(2) by linarith
  qed
  have tw: "uint (word_of_int t :: byte) = t" using t by (simp add: uint_byte_of_int)
  have sign_test: "(t AND 0x80 > 0) = (128 \<le> t)"
  proof -
    have "bit (word_of_int t :: byte) 7 = bit t 7" by (simp add: bit_word_of_int_iff)
    then have "bit t 7 = (128 \<le> t)" using byte_bit7 [of "word_of_int t"] tw by simp
    moreover have "(t AND 0x80 = 0) = (\<not> bit t 7)"
      using and_exp_eq_0_iff_not_bit [of t 7] by simp
    moreover have "0 \<le> t AND 0x80" using t(1) by simp
    ultimately show ?thesis by linarith
  qed
  define ws :: Uint8Array where "ws = map word_of_int bs"
  have ws: "leValue ws = B" "length ws = k" by (simp_all add: ws_def Bw k_def)
  show ?thesis
  proof (cases "128 \<le> t")
    case True
    have k2: "k \<le> 2"
    proof (rule ccontr)
      assume "\<not> k \<le> 2"
      then have "3 \<le> k" by simp
      then have "(256::int) ^ 3 \<le> 256 ^ k" by (rule power_increasing) simp
      then have "16777216 \<le> X" by (simp add: X_def)
      moreover have "128 * X \<le> t * X" using True X(1) by simp
      moreover have "m < 2147483648" using m(2) by simp
      ultimately show False using B(1) X(2) by linarith
    qed
    define s :: int where "s = (if n < 0 then 0x80 else 0x00)"
    define w :: byte where "w = word_of_int s"
    define vs :: Uint8Array where "vs = map word_of_int (bs @ [t])"
    have out: "bigIntToScriptNumber n = vs @ [w]"
      using True sign_test by (simp add: out0 s_def w_def vs_def)
    have w: "uint w = s" by (simp add: s_def w_def)
    have vs: "leValue vs = m" "length vs = k + 1" "vs \<noteq> []" "last vs = word_of_int t"
      using leValue_map [of "bs @ [t]"] rng
      by (simp_all add: leInts_snoc mval B_def k_def vs_def)
    have "parseBytesAsScriptNumber (vs @ [w]) =
       (if bit w 7 then Inr (- (leValue vs + (uint w - 128) * 256 ^ length vs))
        else Inr (leValue vs + uint w * 256 ^ length vs))"
    proof (rule parse_snoc)
      show "length vs \<le> 3" using k2 vs(2) by simp
      show "\<not> (take_bit 7 w = 0 \<and> (vs = [] \<or> \<not> bit (last vs) 7))"
        using True tw vs(3,4) by (simp add: byte_bit7)
    qed
    then show ?thesis
      unfolding out vs(1) byte_bit7 w using m(1) by (auto simp: s_def m_def)
  next
    case small: False
    show ?thesis
    proof (cases "n < 0")
      case True
      have tor: "t OR 0x80 = t + 128"
      proof -
        have "t OR push_bit 7 1 = t + push_bit 7 1"
          using t(1) small by (intro or_push_bit_add) simp_all
        then show ?thesis by simp
      qed
      define w :: byte where "w = word_of_int (t + 128)"
      have out: "bigIntToScriptNumber n = ws @ [w]"
        using True small sign_test by (simp add: out0 tor w_def ws_def)
      have w: "uint w = t + 128"
        unfolding w_def using t(1) small by (intro uint_byte_of_int) simp_all
      have "parseBytesAsScriptNumber (ws @ [w]) =
         (if bit w 7 then Inr (- (leValue ws + (uint w - 128) * 256 ^ length ws))
          else Inr (leValue ws + uint w * 256 ^ length ws))"
      proof (rule parse_snoc)
        show "length ws \<le> 3" using k3 ws(2) by simp
        show "\<not> (take_bit 7 w = 0 \<and> (ws = [] \<or> \<not> bit (last ws) 7))"
          using t(1) by (simp add: byte_low7 w)
      qed
      then show ?thesis
        unfolding out byte_bit7 w ws using True t(1) mval by (simp add: m_def)
    next
      case pos: False
      define w :: byte where "w = word_of_int t"
      have out: "bigIntToScriptNumber n = ws @ [w]"
        using pos small sign_test by (simp add: out0 w_def ws_def)
      have w: "uint w = t" by (simp add: w_def tw)
      have "parseBytesAsScriptNumber (ws @ [w]) =
         (if bit w 7 then Inr (- (leValue ws + (uint w - 128) * 256 ^ length ws))
          else Inr (leValue ws + uint w * 256 ^ length ws))"
      proof (rule parse_snoc)
        show "length ws \<le> 3" using k3 ws(2) by simp
        show "\<not> (take_bit 7 w = 0 \<and> (ws = [] \<or> \<not> bit (last ws) 7))"
          using t small by (simp add: byte_low7 w)
      qed
      then show ?thesis
        unfolding out byte_bit7 w ws using pos small False mval by (simp add: m_def)
    qed
  qed
qed

text \<open>
  C1. For every integer \<open>n\<close> with \<open>|n| \<le> 2^31 - 1\<close>, parsing the Script Number encoding
  of \<open>n\<close> returns \<open>n\<close>; this covers the negative values and 0, which encodes as the
  empty byte array.
\<close>

theorem scriptNumber_roundtrip:
  assumes "\<bar>n\<bar> \<le> 2 ^ 31 - 1"
  shows "parseBytesAsScriptNumber (bigIntToScriptNumber n) = Inr n \<and>
    bigIntToScriptNumber 0 = []"
  using scriptNumber_roundtrip_aux [OF assms] by (simp add: bigIntToScriptNumber_def)

theorem scriptNumber_roundtrip_witness:
  "\<bar>- 255 :: int\<bar> \<le> 2 ^ 31 - 1 \<and>
   parseBytesAsScriptNumber (bigIntToScriptNumber (- 255)) = Inr (- 255)"
proof -
  have h: "\<bar>- 255 :: int\<bar> \<le> 2 ^ 31 - 1" by simp
  show ?thesis using h scriptNumber_roundtrip [OF h] by simp
qed

text \<open>
  C2. \<open>parseBytesAsScriptNumber\<close> classifies every input as specified: the empty array
  parses to 0; an input longer than 4 bytes is out of range; a non-empty input of at most
  4 bytes requires minimal encoding exactly when the low 7 bits of its most significant
  byte are zero and the length is at most 1 or the high bit of the second-most
  significant byte is clear; otherwise the result is the little-endian magnitude, negated
  and with the sign bit cleared when the \<open>0x80\<close> bit of the top byte is set.
\<close>

theorem parseBytesAsScriptNumber_classifies:
  "parseBytesAsScriptNumber bytes = parseScriptNumber_spec bytes"
  by (rule parse_refines_spec)

theorem parseBytesAsScriptNumber_classifies_witness:
  "parseScriptNumber_spec [0xff, 0x80] = Inr (- 255) \<and>
   parseBytesAsScriptNumber [0xff, 0x80] = Inr (- 255) \<and>
   parseBytesAsScriptNumber [0x01, 0x80] = Inl requiresMinimal \<and>
   parseBytesAsScriptNumber [1, 2, 3, 4, 5] = Inl outOfRange"
proof -
  have a: "parseScriptNumber_spec [0xff, 0x80] = Inr (- 255)"
    by (simp add: parseScriptNumber_spec_def unset_bit_int_def)
  have b: "parseScriptNumber_spec [0x01, 0x80] = Inl requiresMinimal"
    by (simp add: parseScriptNumber_spec_def)
  have c: "parseScriptNumber_spec [1, 2, 3, 4, 5] = Inl outOfRange"
    by (simp add: parseScriptNumber_spec_def)
  show ?thesis
    using a b c
      parseBytesAsScriptNumber_classifies [of "[0xff, 0x80]"]
      parseBytesAsScriptNumber_classifies [of "[0x01, 0x80]"]
      parseBytesAsScriptNumber_classifies [of "[1, 2, 3, 4, 5]"]
    by simp
qed

section \<open>Properties of the push operations\<close>

lemma readLittleEndianLength_Uint32:
  "ip s + 4 \<le> length (script s) \<Longrightarrow>
   \<exists>len. readLittleEndianLength (script s) (ip s) 4 Uint32 = Inr len"
  by (simp add: readLittleEndianLength_def Let_def)

text \<open>The checks of \<open>OP_PUSHDATA1\<close> and \<open>OP_PUSHDATA2\<close>, in the order of the source, and
  the minimum and maximum that each of them passes.\<close>

lemma createPushDataOperator_order:
  assumes "(lengthBits, ty) = (1, Uint8) \<or> (lengthBits, ty) = (2, Uint16)"
  shows "createPushDataOperator lengthBits ty minimum maximum s =
     (if length (script s) < ip s + lengthBits then Inr (applyError malformedPush s)
      else
        let len = (if ty = Uint8 then unat (script s ! ip s)
                   else unat (script s ! ip s) + 256 * unat (script s ! (ip s + 1)))
        in if length (script s) < ip s + lengthBits + len then Inr (applyError malformedPush s)
           else if len < minimum then Inr (applyError nonMinimalPush s)
           else if len > maximum then Inr (applyError exceedsMaximumPush s)
           else Inr (s\<lparr>stack := stack s @
                         [slice (script s) (ip s + lengthBits) (ip s + lengthBits + len)],
                       ip := ip s + lengthBits + len\<rparr>))"
  using assms
  by (auto simp: createPushDataOperator_def pushDataVariableMethod_def
      readLittleEndianLength_def pushDataValid_def Let_def)

lemma opPushData_minima:
  "opPushData1 = createPushDataOperator 1 Uint8 75 520"
  "opPushData2 = createPushDataOperator 2 Uint16 256 520"
  by (simp_all add: opPushData1_def opPushData2_def maximumPushDataConstant_def
      maximumPushSize_def highestRepresentableNumberIn_def)

text \<open>
  C4. \<open>OP_PUSHDATA1\<close> at a length byte of 75: the script holds the opcode, the length 75
  and 75 bytes, and the instruction pointer stands behind the opcode. The operation
  pushes the 75 bytes and moves the instruction pointer to the end of the script; it
  sets no error, as its minimum is 75 and the test is \<open>length < minimum\<close>.
\<close>

theorem opPushData1_accepts_75:
  "opPushData1 (fullState\<lparr>script := 0x4c # 75 # replicate 75 0xaa, ip := 1\<rparr>) =
     Inr (fullState\<lparr>script := 0x4c # 75 # replicate 75 0xaa,
                    stack := [replicate 75 0xaa], ip := 77\<rparr>)"
  by (simp add: opPushData1_def createPushDataOperator_def pushDataVariableMethod_def
      readLittleEndianLength_def maximumPushDataConstant_def maximumPushSize_def
      pushDataValid_def slice_def fullState_def Let_def)

text \<open>
  C5. For every program state \<open>OP_PUSHDATA4\<close> returns the state with an error set, one
  of \<open>malformedPush\<close>, \<open>nonMinimalPush\<close> and \<open>exceedsMaximumPush\<close>; the handler of a
  valid push is never reached, so the result does not depend on it.
\<close>

theorem opPushData4_never_succeeds:
  "(\<exists>e. opPushData4 s = Inr (applyError e s) \<and> error (applyError e s) = Some e \<and>
        (e = malformedPush \<or> e = nonMinimalPush \<or> e = exceedsMaximumPush)) \<and>
   pushDataVariableMethod 4 Uint32 (highestRepresentableNumberIn 2) maximumPushSize
     a b c d valid s =
   pushDataVariableMethod 4 Uint32 (highestRepresentableNumberIn 2) maximumPushSize
     a b c d valid' s"
proof (cases "length (script s) < ip s + 4")
  case True
  then show ?thesis
    by (auto simp: opPushData4_def createPushDataOperator_def pushDataVariableMethod_def
        applyError_def)
next
  case False
  then obtain len where len: "readLittleEndianLength (script s) (ip s) 4 Uint32 = Inr len"
    using readLittleEndianLength_Uint32 [of s] by auto
  have bounds: "len < 65536 \<or> 520 < len" by arith
  show ?thesis
    using False bounds
    by (auto simp: opPushData4_def createPushDataOperator_def pushDataVariableMethod_def
        applyError_def len highestRepresentableNumberIn_def maximumPushSize_def Let_def)
qed

theorem opPushData4_never_succeeds_witness:
  "opPushData4 (fullState\<lparr>script := [0x4e, 0x02, 0x00, 0x00, 0x00, 0xaa, 0xbb], ip := 1\<rparr>) =
   Inr (fullState\<lparr>script := [0x4e, 0x02, 0x00, 0x00, 0x00, 0xaa, 0xbb], ip := 1,
                  error := Some nonMinimalPush\<rparr>)"
proof -
  have "opPushData4 (fullState\<lparr>script := [0x4e, 0x02, 0x00, 0x00, 0x00, 0xaa, 0xbb], ip := 1\<rparr>)
      \<noteq> Inr (applyError malformedPush
            (fullState\<lparr>script := [0x4e, 0x02, 0x00, 0x00, 0x00, 0xaa, 0xbb], ip := 1\<rparr>))"
    and "opPushData4 (fullState\<lparr>script := [0x4e, 0x02, 0x00, 0x00, 0x00, 0xaa, 0xbb], ip := 1\<rparr>)
      \<noteq> Inr (applyError exceedsMaximumPush
            (fullState\<lparr>script := [0x4e, 0x02, 0x00, 0x00, 0x00, 0xaa, 0xbb], ip := 1\<rparr>))"
    by (simp_all add: opPushData4_def createPushDataOperator_def pushDataVariableMethod_def
        readLittleEndianLength_def highestRepresentableNumberIn_def maximumPushSize_def
        applyError_def fullState_def)
  then show ?thesis
    using opPushData4_never_succeeds
      [of "fullState\<lparr>script := [0x4e, 0x02, 0x00, 0x00, 0x00, 0xaa, 0xbb], ip := 1\<rparr>",
       THEN conjunct1]
    by (auto simp: applyError_def)
qed

section \<open>Properties of the operations that read the stack\<close>

text \<open>\<^verbatim>\<open>areEqual\<close> is the equality of byte arrays.\<close>

lemma areEqual_loop_iff:
  "length a = length b \<Longrightarrow> areEqual_loop a b i = (drop i a = drop i b)"
proof (induction a b i rule: areEqual_loop.induct)
  case (1 a b i)
  show ?case
  proof (cases "i < length a")
    case True
    then have "drop i a = a ! i # drop (i + 1) a" "drop i b = b ! i # drop (i + 1) b"
      using "1.prems" by (simp_all add: Cons_nth_drop_Suc)
    then show ?thesis
      using True "1.IH" "1.prems" by (subst areEqual_loop.simps) auto
  next
    case False
    then show ?thesis using "1.prems" by (subst areEqual_loop.simps) simp
  qed
qed

lemma areEqual_iff: "areEqual a b = (a = b)"
  using areEqual_loop_iff [of a b 0] by (auto simp: areEqual_def)

lemma pop_single: "pop [x] = (Some x, [])"
  by (simp add: pop_def)

lemma pop_empty: "pop [] = (None, [])"
  by (simp add: pop_def)

lemma pop_snoc: "pop (xs @ [x]) = (Some x, xs)"
  by (simp add: pop_def)

lemma bigIntToScriptNumber_1: "bigIntToScriptNumber 1 = [0x01]"
  by (simp add: bigIntToScriptNumber_def encodeLoop.simps)

lemma bigIntToScriptNumber_0: "bigIntToScriptNumber 0 = []"
  by (simp add: bigIntToScriptNumber_def)

lemma bigIntToNumber_small: "0 \<le> v \<Longrightarrow> v < 2 ^ 53 \<Longrightarrow> bigIntToNumber v = Some v"
  by (simp add: bigIntToNumber_def roundTiesToEven_def)

lemma opCheckSig_invalid:
  assumes st: "stack s = rest @ [sg, pk]"
  shows "\<not> validPk pk \<Longrightarrow>
      opCheckSig sha verify validPk validSig decode serialize s =
      applyError invalidPublicKeyEncoding (s\<lparr>stack := rest\<rparr>)"
    and "validPk pk \<Longrightarrow> \<not> validSig sg \<Longrightarrow>
      opCheckSig sha verify validPk validSig decode serialize s =
      applyError invalidSignatureEncoding (s\<lparr>stack := rest\<rparr>)"
proof -
  have p1: "pop (stack s) = (Some pk, rest @ [sg])"
    using pop_snoc [of "rest @ [sg]" pk] by (simp add: st)
  have p2: "pop (rest @ [sg]) = (Some sg, rest)" by (rule pop_snoc)
  show "\<not> validPk pk \<Longrightarrow>
      opCheckSig sha verify validPk validSig decode serialize s =
      applyError invalidPublicKeyEncoding (s\<lparr>stack := rest\<rparr>)"
    by (simp add: opCheckSig_def p1 p2)
  show "validPk pk \<Longrightarrow> \<not> validSig sg \<Longrightarrow>
      opCheckSig sha verify validPk validSig decode serialize s =
      applyError invalidSignatureEncoding (s\<lparr>stack := rest\<rparr>)"
    by (simp add: opCheckSig_def p1 p2)
qed

lemma opCheckSig_short:
  assumes "length (stack s) < 2"
  shows "opCheckSig sha verify validPk validSig decode serialize s =
      applyError emptyStack (s\<lparr>stack := []\<rparr>)"
proof -
  from assms consider "stack s = []" | x where "stack s = [x]"
    by (cases "stack s"; cases "tl (stack s)") auto
  then show ?thesis
    by cases (simp_all add: opCheckSig_def pop_single pop_empty)
qed

text \<open>
  C9. \<open>OP_CHECKSIG\<close> pops the public key and then the signature. With fewer than two
  elements it fails with \<open>emptyStack\<close>; otherwise with \<open>invalidPublicKeyEncoding\<close> when the
  public key is not validly encoded; otherwise with \<open>invalidSignatureEncoding\<close> when the
  signature is not; otherwise the script code is the VarInt of the length followed by
  the script from \<open>lastCodeSeparator + 1\<close> on, the digest is the double SHA-256 of the
  signing serialization, and the operation pushes the Script Number 1 when the signature
  verifies and the Script Number 0 when it does not.
\<close>

theorem opCheckSig_order:
  "(length (stack s) < 2 \<longrightarrow>
      opCheckSig sha verify validPk validSig decode serialize s =
      applyError emptyStack (s\<lparr>stack := []\<rparr>)) \<and>
   (stack s = rest @ [sg, pk] \<longrightarrow>
      (\<not> validPk pk \<longrightarrow>
         opCheckSig sha verify validPk validSig decode serialize s =
         applyError invalidPublicKeyEncoding (s\<lparr>stack := rest\<rparr>)) \<and>
      (validPk pk \<and> \<not> validSig sg \<longrightarrow>
         opCheckSig sha verify validPk validSig decode serialize s =
         applyError invalidSignatureEncoding (s\<lparr>stack := rest\<rparr>)) \<and>
      (validPk pk \<and> validSig sg \<longrightarrow>
        (let scr = subarrayFrom (script s) (lastCodeSeparator s + 1);
             scriptCode = bigIntToBitcoinVarInt (int (length scr)) @ scr;
             digest = sha (sha (serialize (version s) (transactionOutpointsHash s)
               (transactionSequenceNumbersHash s) (outpointTransactionHash s) (outpointIndex s)
               scriptCode (outpointValue s) (sequenceNumber s) (correspondingOutputHash s)
               (transactionOutputsHash s) (locktime s) (fst (decode sg))))
         in opCheckSig sha verify validPk validSig decode serialize s =
            s\<lparr>stack := rest @
              [if verify (snd (decode sg)) pk digest then bigIntToScriptNumber 1
               else bigIntToScriptNumber 0]\<rparr>)) \<and>
      (- 1 \<le> lastCodeSeparator s \<longrightarrow>
         subarrayFrom (script s) (lastCodeSeparator s + 1) =
         drop (nat (lastCodeSeparator s + 1)) (script s)))"
proof (intro conjI impI)
  assume "length (stack s) < 2"
  then show "opCheckSig sha verify validPk validSig decode serialize s =
      applyError emptyStack (s\<lparr>stack := []\<rparr>)"
    by (rule opCheckSig_short)
next
  assume st: "stack s = rest @ [sg, pk]"
  have p1: "pop (stack s) = (Some pk, rest @ [sg])"
    using pop_snoc [of "rest @ [sg]" pk] by (simp add: st)
  have p2: "pop (rest @ [sg]) = (Some sg, rest)" by (rule pop_snoc)
  {
    assume "\<not> validPk pk"
    then show "opCheckSig sha verify validPk validSig decode serialize s =
        applyError invalidPublicKeyEncoding (s\<lparr>stack := rest\<rparr>)"
      by (rule opCheckSig_invalid(1) [OF st])
  next
    assume a: "validPk pk \<and> \<not> validSig sg"
    show "opCheckSig sha verify validPk validSig decode serialize s =
        applyError invalidSignatureEncoding (s\<lparr>stack := rest\<rparr>)"
      by (rule opCheckSig_invalid(2) [OF st]) (use a in simp_all)
  next
    assume "validPk pk \<and> validSig sg"
    then show "let scr = subarrayFrom (script s) (lastCodeSeparator s + 1);
             scriptCode = bigIntToBitcoinVarInt (int (length scr)) @ scr;
             digest = sha (sha (serialize (version s) (transactionOutpointsHash s)
               (transactionSequenceNumbersHash s) (outpointTransactionHash s) (outpointIndex s)
               scriptCode (outpointValue s) (sequenceNumber s) (correspondingOutputHash s)
               (transactionOutputsHash s) (locktime s) (fst (decode sg))))
         in opCheckSig sha verify validPk validSig decode serialize s =
            s\<lparr>stack := rest @
              [if verify (snd (decode sg)) pk digest then bigIntToScriptNumber 1
               else bigIntToScriptNumber 0]\<rparr>"
      by (simp add: opCheckSig_def p1 p2 Let_def booleanToScriptNumber_def
          split: prod.splits)
  next
    assume "- 1 \<le> lastCodeSeparator s"
    then show "subarrayFrom (script s) (lastCodeSeparator s + 1) =
         drop (nat (lastCodeSeparator s + 1)) (script s)"
      by (simp add: subarrayFrom_def)
  }
qed

theorem opCheckSig_order_witness:
  "opCheckSig (\<lambda>x. x) (\<lambda>sg pk d. sg = [0x30] \<and> d = [0x01, 0xac]) (\<lambda>pk. pk = [0x02])
     (\<lambda>sg. sg = [0x30, 0x41]) (\<lambda>sg. (last sg, butlast sg))
     (\<lambda>v a b c i sc ov sq d e l t. sc)
     (fullState\<lparr>script := [0xac], stack := [[0x30, 0x41], [0x02]]\<rparr>)
   = fullState\<lparr>script := [0xac], stack := [[0x01]]\<rparr> \<and>
   opCheckSig (\<lambda>x. x) (\<lambda>sg pk d. sg = [0x30] \<and> d = [0x01, 0xac]) (\<lambda>pk. pk = [0x02])
     (\<lambda>sg. sg = [0x30, 0x41]) (\<lambda>sg. (last sg, butlast sg))
     (\<lambda>v a b c i sc ov sq d e l t. sc)
     (fullState\<lparr>script := [0xac], stack := [[0x30, 0x41], [0x03]]\<rparr>)
   = fullState\<lparr>script := [0xac], stack := [], error := Some invalidPublicKeyEncoding\<rparr> \<and>
   opCheckSig (\<lambda>x. x) (\<lambda>sg pk d. sg = [0x30] \<and> d = [0x01, 0xac]) (\<lambda>pk. pk = [0x02])
     (\<lambda>sg. sg = [0x30, 0x41]) (\<lambda>sg. (last sg, butlast sg))
     (\<lambda>v a b c i sc ov sq d e l t. sc)
     (fullState\<lparr>script := [0xac], stack := [[0x31, 0x41], [0x02]]\<rparr>)
   = fullState\<lparr>script := [0xac], stack := [], error := Some invalidSignatureEncoding\<rparr> \<and>
   opCheckSig (\<lambda>x. x) (\<lambda>sg pk d. sg = [0x30] \<and> d = [0x01, 0xac]) (\<lambda>pk. pk = [0x02])
     (\<lambda>sg. sg = [0x30, 0x41]) (\<lambda>sg. (last sg, butlast sg))
     (\<lambda>v a b c i sc ov sq d e l t. sc)
     (fullState\<lparr>script := [0xac], stack := [[0x02]]\<rparr>)
   = fullState\<lparr>script := [0xac], stack := [], error := Some emptyStack\<rparr>"
proof -
  have v: "bigIntToBitcoinVarInt 1 = [0x01]"
    by (simp add: bigIntToBitcoinVarInt_def bigIntToNumber_small toUint8_def)
  note inst = opCheckSig_order [where sha = "\<lambda>x. x"
      and verify = "\<lambda>sg pk d. sg = [0x30] \<and> d = [0x01, 0xac]"
      and validPk = "\<lambda>pk. pk = [0x02]" and validSig = "\<lambda>sg. sg = [0x30, 0x41]"
      and decode = "\<lambda>sg. (last sg, butlast sg)"
      and serialize = "\<lambda>v a b c i sc ov sq d e l t. sc"]
  show ?thesis
    using inst [where s = "fullState\<lparr>script := [0xac], stack := [[0x30, 0x41], [0x02]]\<rparr>"
        and rest = "[]" and sg = "[0x30, 0x41]" and pk = "[0x02]"]
      inst [where s = "fullState\<lparr>script := [0xac], stack := [[0x30, 0x41], [0x03]]\<rparr>"
        and rest = "[]" and sg = "[0x30, 0x41]" and pk = "[0x03]"]
      inst [where s = "fullState\<lparr>script := [0xac], stack := [[0x31, 0x41], [0x02]]\<rparr>"
        and rest = "[]" and sg = "[0x31, 0x41]" and pk = "[0x02]"]
      inst [where s = "fullState\<lparr>script := [0xac], stack := [[0x02]]\<rparr>"
        and rest = "[]" and sg = "[]" and pk = "[]"]
    by (simp add: fullState_def subarrayFrom_def v applyError_def bigIntToScriptNumber_1 Let_def)
qed

text \<open>
  C10. The operations that read the stack do not restore it when they fail. On a state
  whose stack holds exactly one element, \<open>OP_EQUAL\<close> returns a state with the error
  \<open>emptyStack\<close> and an empty stack, and so does \<open>OP_CHECKSIG\<close>; when \<open>OP_CHECKSIG\<close> fails
  on an encoding, the two elements it popped are gone too.
\<close>

theorem failed_pops_consume:
  "(length (stack s) = 1 \<longrightarrow>
      error (opEqual s) = Some emptyStack \<and> stack (opEqual s) = [] \<and>
      error (opCheckSig sha verify validPk validSig decode serialize s) = Some emptyStack \<and>
      stack (opCheckSig sha verify validPk validSig decode serialize s) = []) \<and>
   (stack s = rest @ [sg, pk] \<and> \<not> (validPk pk \<and> validSig sg) \<longrightarrow>
      error (opCheckSig sha verify validPk validSig decode serialize s) \<noteq> None \<and>
      stack (opCheckSig sha verify validPk validSig decode serialize s) = rest)"
proof (intro conjI impI)
  assume "length (stack s) = 1"
  then obtain x where x: "stack s = [x]"
    by (cases "stack s") auto
  show "error (opEqual s) = Some emptyStack" "stack (opEqual s) = []"
    "error (opCheckSig sha verify validPk validSig decode serialize s) = Some emptyStack"
    "stack (opCheckSig sha verify validPk validSig decode serialize s) = []"
    by (simp_all add: opEqual_def opCheckSig_def x pop_single pop_empty applyError_def)
next
  assume a: "stack s = rest @ [sg, pk] \<and> \<not> (validPk pk \<and> validSig sg)"
  then have st: "stack s = rest @ [sg, pk]" by simp
  from a consider "\<not> validPk pk" | "validPk pk" "\<not> validSig sg" by auto
  then have "error (opCheckSig sha verify validPk validSig decode serialize s) \<noteq> None \<and>
      stack (opCheckSig sha verify validPk validSig decode serialize s) = rest"
    by cases (simp_all add: opCheckSig_invalid [OF st] applyError_def)
  then show "error (opCheckSig sha verify validPk validSig decode serialize s) \<noteq> None"
    "stack (opCheckSig sha verify validPk validSig decode serialize s) = rest"
    by simp_all
qed

theorem failed_pops_consume_witness:
  "length (stack (fullState\<lparr>stack := [[0x01]]\<rparr>)) = 1 \<and>
   error (opEqual (fullState\<lparr>stack := [[0x01]]\<rparr>)) = Some emptyStack \<and>
   stack (opEqual (fullState\<lparr>stack := [[0x01]]\<rparr>)) = [] \<and>
   error (opCheckSig (\<lambda>x. x) (\<lambda>sg pk d. True) (\<lambda>pk. pk = [0x02]) (\<lambda>sg. True)
            (\<lambda>sg. (last sg, butlast sg)) (\<lambda>v a b c i sc ov sq d e l t. sc)
            (fullState\<lparr>stack := [[0x01]]\<rparr>)) = Some emptyStack \<and>
   stack (opCheckSig (\<lambda>x. x) (\<lambda>sg pk d. True) (\<lambda>pk. pk = [0x02]) (\<lambda>sg. True)
            (\<lambda>sg. (last sg, butlast sg)) (\<lambda>v a b c i sc ov sq d e l t. sc)
            (fullState\<lparr>stack := [[0x01]]\<rparr>)) = [] \<and>
   stack (opCheckSig (\<lambda>x. x) (\<lambda>sg pk d. True) (\<lambda>pk. pk = [0x02]) (\<lambda>sg. True)
            (\<lambda>sg. (last sg, butlast sg)) (\<lambda>v a b c i sc ov sq d e l t. sc)
            (fullState\<lparr>stack := [[0x07], [0x30], [0x03]]\<rparr>)) = [[0x07]]"
proof -
  note inst = failed_pops_consume [where sha = "\<lambda>x. x" and verify = "\<lambda>sg pk d. True"
      and validPk = "\<lambda>pk. pk = [0x02]" and validSig = "\<lambda>sg. True"
      and decode = "\<lambda>sg. (last sg, butlast sg)"
      and serialize = "\<lambda>v a b c i sc ov sq d e l t. sc"]
  show ?thesis
    using inst [where s = "fullState\<lparr>stack := [[0x01]]\<rparr>" and rest = "[]" and sg = "[]"
        and pk = "[]"]
      inst [where s = "fullState\<lparr>stack := [[0x07], [0x30], [0x03]]\<rparr>" and rest = "[[0x07]]"
        and sg = "[0x30]" and pk = "[0x03]"]
    by simp
qed

section \<open>Properties of the VarInt codec\<close>

text \<open>A VarInt of one byte is read back.\<close>

lemma varInt_roundtrip_one_byte:
  assumes "0 \<le> v" "v \<le> 0xfc"
  shows "readBitcoinVarInt (bigIntToBitcoinVarInt v) 0 = Inr \<lparr>nextOffset = 1, varIntValue = v\<rparr>"
proof -
  define w :: byte where "w = word_of_int v"
  have uw: "uint w = v"
    unfolding w_def using assms by (intro uint_byte_of_int) simp_all
  have enc: "bigIntToBitcoinVarInt v = [w]"
    using assms by (simp add: bigIntToBitcoinVarInt_def bigIntToNumber_small toUint8_def w_def)
  have "w \<noteq> 0xfd" "w \<noteq> 0xfe" "w \<noteq> 0xff"
    using uw assms(2) by auto
  then have size: "varIntPrefixToSize (Some w) = 1"
    by (simp add: varIntPrefixToSize_def)
  have "binToBigIntUintLE [w] 1 = Inr v"
    by (simp add: binToBigIntUintLE_def binToBigIntUintLE_loop.simps uw)
  then show ?thesis
    by (simp add: enc readBitcoinVarInt_def size slice_def)
qed

text \<open>
  C6. Reading the VarInt written for 253: the encoding is the prefix \<open>0xfd\<close> and the two
  bytes of 253, three bytes in all. \<open>readBitcoinVarInt\<close> at offset 0 reads two bytes from
  the offset, the prefix among them: the value it returns is 65021 and the next offset
  is 2.
\<close>

theorem readBitcoinVarInt_253:
  "bigIntToBitcoinVarInt 253 = [0xfd, 0xfd, 0x00] \<and>
   readBitcoinVarInt (bigIntToBitcoinVarInt 253) 0 = Inr \<lparr>nextOffset = 2, varIntValue = 65021\<rparr>"
proof -
  have enc: "bigIntToBitcoinVarInt 253 = [0xfd, 0xfd, 0x00]"
    by (simp add: bigIntToBitcoinVarInt_def numeral_2_eq_2 bigIntToNumber_small toUint8_def
        drop_bit_eq_div)
  have "binToBigIntUintLE [0xfd, 0xfd] 2 = Inr 65021"
    by (simp add: binToBigIntUintLE_def binToBigIntUintLE_loop.simps)
  then show ?thesis
    by (simp add: enc readBitcoinVarInt_def varIntPrefixToSize_def slice_def)
qed

section \<open>Properties of the program composer\<close>

lemma cloneStack_id: "cloneStack stk = stk"
proof -
  have "foldl (\<lambda>newStack element. newStack @ [slice element 0 (length element)]) acc stk
      = acc @ stk" for acc
    by (induction stk arbitrary: acc) (simp_all add: slice_def)
  then show ?thesis by (simp add: cloneStack_def)
qed

lemma passState_simps:
  "ip (passState stk ext scr) = 0"
  "lastCodeSeparator (passState stk ext scr) = - 1"
  "stack (passState stk ext scr) = stk"
  "script (passState stk ext scr) = scr"
  "error (passState stk ext scr) = None"
  by (simp_all add: passState_def)

lemma isPayToScriptHash_example:
  "isPayToScriptHash (0xa9 # 0x14 # replicate 20 0 @ [0x87])"
  by (simp add: isPayToScriptHash_def OP_HASH160_def OP_DATA_20_def OP_EQUAL_def nth_append)

text \<open>
  C7. The unlocking script \<open>[0x01, 0xff]\<close> is the opcode \<open>OP_DATA_1\<close> and its one byte of
  payload. \<open>isPushOnly\<close> tests every byte of the script and does not hold of it. So, with
  a locking script of the P2SH template and a virtual machine whose unlocking pass ends
  with no error, the composer returns the traces of the two passes followed by the step
  "P2SH error: unlockingScript must be push-only.".
\<close>

theorem p2sh_rejects_data_push:
  assumes u: "u = debug (passState [] ext [0x01, 0xff]) ''Begin unlocking script evaluation.''"
    and l: "l = debug (passState (stack (state (last u))) ext lock)
                  ''Begin locking script evaluation.''"
    and ne: "u \<noteq> []" "l \<noteq> []"
    and ok: "error (state (last u)) = None"
    and p2sh: "isPayToScriptHash lock"
  shows "\<not> isPushOnly [0x01, 0xff] \<and>
    debugBitcoinCashAuthenticationProgram debug
      \<lparr>lockingScript = lock, programState = ext, unlockingScript = [0x01, 0xff]\<rparr> =
    Inr (u @ l @
      [\<lparr>asm = ''[P2SH error]'',
        description = ''P2SH error: unlockingScript must be push-only.'',
        state = state (last l)\<rparr>])"
proof -
  have np: "\<not> isPushOnly [0x01, 0xff]"
    by (simp add: isPushOnly_def OP_16_def)
  show ?thesis
    using ne ok p2sh np
    by (simp add: debugBitcoinCashAuthenticationProgram_def Let_def u [symmetric] l [symmetric])
qed

theorem p2sh_rejects_data_push_witness:
  "(let debug = (\<lambda>s d. [\<lparr>asm = [], description = d, state = s\<lparr>stack := stack s @ [[0xff]]\<rparr>\<rparr>]);
        ext = ExternalState.truncate fullState;
        lock = 0xa9 # 0x14 # replicate 20 0 @ [0x87]
    in isPayToScriptHash lock \<and>
       debugBitcoinCashAuthenticationProgram debug
         \<lparr>lockingScript = lock, programState = ext, unlockingScript = [0x01, 0xff]\<rparr> =
       Inr (debug (passState [] ext [0x01, 0xff]) ''Begin unlocking script evaluation.'' @
            debug (passState [[0xff]] ext lock) ''Begin locking script evaluation.'' @
            [\<lparr>asm = ''[P2SH error]'',
              description = ''P2SH error: unlockingScript must be push-only.'',
              state = (passState [[0xff]] ext lock)\<lparr>stack := [[0xff], [0xff]]\<rparr>\<rparr>]))"
  using isPayToScriptHash_example
    p2sh_rejects_data_push [OF refl refl,
      where debug = "\<lambda>s d. [\<lparr>asm = [], description = d, state = s\<lparr>stack := stack s @ [[0xff]]\<rparr>\<rparr>]"
      and ext = "ExternalState.truncate fullState"
      and lock = "0xa9 # 0x14 # replicate 20 0 @ [0x87]"]
  by (simp add: passState_simps Let_def)

text \<open>
  C8. Every pass of the composer starts from \<open>ip = 0\<close> and \<open>lastCodeSeparator = -1\<close>, and
  the passes share the stack only. With \<open>u\<close> the trace of the unlocking pass: when its
  final state has an error the composer returns \<open>u\<close> alone; otherwise the locking pass
  starts with the final stack of \<open>u\<close>, and, for a locking script of the P2SH template
  with a push-only unlocking script that leaves a stack, the third pass starts with that
  stack without its top element and runs the top element as its script.
\<close>

theorem composer_passes:
  assumes u: "u = debug (passState [] (programState p) (unlockingScript p))
                    ''Begin unlocking script evaluation.''"
    and l: "l = debug (passState (stack (state (last u))) (programState p) (lockingScript p))
                  ''Begin locking script evaluation.''"
    and r: "r = debug (passState (butlast (stack (state (last u)))) (programState p)
                         (last (stack (state (last u)))))
                  ''Begin P2SH script evaluation.''"
    and ne: "u \<noteq> []" "error (state (last u)) = None \<longrightarrow> l \<noteq> []"
  shows "ip (passState stk ext scr) = 0 \<and> lastCodeSeparator (passState stk ext scr) = - 1 \<and>
     stack (passState stk ext scr) = stk \<and> script (passState stk ext scr) = scr \<and>
     error (passState stk ext scr) = None \<and>
     (error (state (last u)) \<noteq> None \<longrightarrow>
        debugBitcoinCashAuthenticationProgram debug p = Inr u) \<and>
     (error (state (last u)) = None \<and> \<not> isPayToScriptHash (lockingScript p) \<longrightarrow>
        debugBitcoinCashAuthenticationProgram debug p = Inr (u @ l)) \<and>
     (error (state (last u)) = None \<and> isPayToScriptHash (lockingScript p) \<and>
      isPushOnly (unlockingScript p) \<and> stack (state (last u)) \<noteq> [] \<longrightarrow>
        debugBitcoinCashAuthenticationProgram debug p = Inr (u @ l @ r))"
proof -
  have popc: "stk \<noteq> [] \<Longrightarrow> pop (cloneStack stk) = (Some (last stk), butlast stk)"
    for stk :: "Uint8Array list"
    by (simp add: cloneStack_id pop_def)
  show ?thesis
    using ne popc [of "stack (state (last u))"]
    by (auto simp: passState_simps debugBitcoinCashAuthenticationProgram_def Let_def
        u [symmetric] l [symmetric] r [symmetric])
qed

theorem composer_passes_witness:
  "(let debug = (\<lambda>s d. [\<lparr>asm = [], description = d, state = s\<lparr>stack := stack s @ [[0x51]]\<rparr>\<rparr>]);
        ext = ExternalState.truncate fullState;
        p = \<lparr>lockingScript = 0xa9 # 0x14 # replicate 20 0 @ [0x87], programState = ext,
             unlockingScript = []\<rparr>
    in debugBitcoinCashAuthenticationProgram debug p =
       Inr (debug (passState [] ext []) ''Begin unlocking script evaluation.'' @
            debug (passState [[0x51]] ext (lockingScript p)) ''Begin locking script evaluation.'' @
            debug (passState [] ext [0x51]) ''Begin P2SH script evaluation.'')) \<and>
   (let debug = (\<lambda>s d. [\<lparr>asm = [], description = d, state = s\<lparr>error := Some unknownOpcode\<rparr>\<rparr>]);
        ext = ExternalState.truncate fullState;
        p = \<lparr>lockingScript = [0x87], programState = ext, unlockingScript = [0xba]\<rparr>
    in debugBitcoinCashAuthenticationProgram debug p =
       Inr (debug (passState [] ext [0xba]) ''Begin unlocking script evaluation.''))"
proof -
  have push: "isPushOnly []" by (simp add: isPushOnly_def)
  show ?thesis
    using isPayToScriptHash_example push
      composer_passes [OF refl refl refl,
        where debug = "\<lambda>s d. [\<lparr>asm = [], description = d, state = s\<lparr>stack := stack s @ [[0x51]]\<rparr>\<rparr>]"
        and p = "\<lparr>lockingScript = 0xa9 # 0x14 # replicate 20 0 @ [0x87],
                 programState = ExternalState.truncate fullState, unlockingScript = []\<rparr>"]
      composer_passes [OF refl refl refl,
        where debug = "\<lambda>s d. [\<lparr>asm = [], description = d, state = s\<lparr>error := Some unknownOpcode\<rparr>\<rparr>]"
        and p = "\<lparr>lockingScript = [0x87], programState = ExternalState.truncate fullState,
                 unlockingScript = [0xba]\<rparr>"]
    by (simp add: passState_simps Let_def)
qed

section \<open>Properties of cloning\<close>

lemma clone_store:
  "snd (clone h s) = h @ [h ! correspondingOutputHash' s, h ! outpointTransactionHash' s,
      h ! script' s, h ! transactionOutpointsHash' s, h ! transactionOutputsHash' s,
      h ! transactionSequenceNumbersHash' s]"
  if "wellFormed h s"
  using that by (simp add: clone_def sliceObject_def wellFormed_def nth_append)

lemma clone_refs:
  "correspondingOutputHash' (fst (clone h s)) = length h"
  "outpointTransactionHash' (fst (clone h s)) = length h + 1"
  "script' (fst (clone h s)) = length h + 2"
  "transactionOutpointsHash' (fst (clone h s)) = length h + 3"
  "transactionOutputsHash' (fst (clone h s)) = length h + 4"
  "transactionSequenceNumbersHash' (fst (clone h s)) = length h + 5"
  "stack' (fst (clone h s)) = stack' s"
  by (simp_all add: clone_def sliceObject_def)

text \<open>The clone holds the bytes of the original.\<close>

lemma clone_contents:
  assumes "wellFormed h s"
  shows "contents (snd (clone h s)) (fst (clone h s)) = contents h s"
proof -
  have "map (\<lambda>r. (h @ xs) ! r) (stack' s) = map (\<lambda>r. h ! r) (stack' s)" for xs
    using assms by (auto simp: wellFormed_def list_all_iff nth_append)
  then show ?thesis
    using assms unfolding clone_store [OF assms]
    by (simp add: contents_def clone_refs nth_append) (simp add: clone_def sliceObject_def)
qed

lemma write_fresh_keeps_original:
  assumes "wellFormed h s" "length h \<le> r"
  shows "contents (writeByte (h @ xs) r i v) s = contents h s"
proof -
  have a: "a < length h \<Longrightarrow> (writeByte (h @ xs) r i v) ! a = h ! a" for a
    using assms(2) by (simp add: writeByte_def nth_append)
  have "map (\<lambda>a. (writeByte (h @ xs) r i v) ! a) (stack' s) = map (\<lambda>a. h ! a) (stack' s)"
    using assms(1) a by (auto simp: wellFormed_def list_all_iff)
  then show ?thesis
    using assms(1) by (simp add: contents_def wellFormed_def a)
qed

text \<open>A write to the script or to a hash of the clone leaves the original as it was.\<close>

lemma clone_isolates_script_and_hashes:
  assumes "wellFormed h s"
    and "r \<in> {script' (fst (clone h s)), correspondingOutputHash' (fst (clone h s)),
               outpointTransactionHash' (fst (clone h s)),
               transactionOutpointsHash' (fst (clone h s)),
               transactionOutputsHash' (fst (clone h s)),
               transactionSequenceNumbersHash' (fst (clone h s))}"
  shows "contents (writeByte (snd (clone h s)) r i v) s = contents h s"
proof -
  have "length h \<le> r" using assms(2) by (auto simp: clone_refs)
  then show ?thesis
    unfolding clone_store [OF assms(1)] using assms(1)
    by (rule write_fresh_keeps_original [rotated])
qed

text \<open>
  C3. A write to an element of the stack of the clone shows in the original. The store
  holds the five hashes, the script and one stack element \<open>[0x01]\<close>; the state \<open>s\<close>
  refers to them. After \<open>c = clone s\<close>, writing \<open>0xff\<close> to the first byte of the first
  stack element of \<open>c\<close> changes the stack of \<open>s\<close> from \<open>[[0x01]]\<close> to \<open>[[0xff]]\<close>.
\<close>

theorem clone_shares_stack_elements:
  "(let h = [[0x11], [0x22], [0xac], [0x33], [0x44], [0x55], [0x01]];
        s = \<lparr>error' = None, blockHeight' = 0, blockTime' = 0, correspondingOutputHash' = 0,
             ip' = 0, lastCodeSeparator' = - 1, locktime' = 0, outpointIndex' = 0,
             outpointTransactionHash' = 1, outpointValue' = 0, script' = 2,
             sequenceNumber' = 0, stack' = [6], transactionOutpointsHash' = 3,
             transactionOutputsHash' = 4, transactionSequenceNumbersHash' = 5, version' = 2\<rparr>;
        (c, h1) = clone h s;
        h2 = writeByte h1 (stack' c ! 0) 0 0xff
    in wellFormed h s \<and> stack (contents h s) = [[0x01]] \<and> stack (contents h1 c) = [[0x01]] \<and>
       stack (contents h2 c) = [[0xff]] \<and> stack (contents h2 s) = [[0xff]] \<and>
       contents h2 s \<noteq> contents h s)"
  by (simp add: clone_def sliceObject_def writeByte_def contents_def wellFormed_def Let_def)

end
